theory Spec2Isabelle
  imports Main "HOL-Library.Char_ord" "HOL-Library.List_Lexorder" "HOL-Library.Multiset"
begin

section \<open>The JavaScript \<open>Date\<close> object\<close>

text \<open>
  \<open>src/App.tsx\<close> computes with \<open>Date\<close> objects. A \<open>Date\<close> holds a time value: a whole
  number of milliseconds since 1970-01-01T00:00:00Z, or NaN (an Invalid Date). The model
  is \<open>int option\<close>, with \<open>None\<close> for NaN. The functions below follow ECMA-262, section
  21.4.1 (Day, TimeWithinDay, DaysInYear, DayFromYear, YearFromTime, InLeapYear,
  MonthFromTime, DateFromTime, WeekDay, MakeDay, MakeDate, TimeClip) and the methods
  \<open>getDate\<close>, \<open>getMonth\<close>, \<open>getFullYear\<close>, \<open>getDay\<close>, \<open>setDate\<close>, \<open>setMonth\<close>,
  \<open>setFullYear\<close> of section 21.4.4. These methods compute in the local time of the host,
  through \<open>LocalTime\<close> and \<open>UTC\<close> (21.4.1.25, 21.4.1.26); the host's time zone is a
  parameter of the model (type \<open>timezone\<close> below).

  A JavaScript number that is the argument of a setter is \<open>int option\<close> as well
  (\<open>None\<close> for NaN): \<open>date.getDate() + 1\<close> is NaN on an Invalid Date.
\<close>

type_synonym date = "int option"

type_synonym number = "int option"

definition msPerDay :: int where
  "msPerDay = 86400000"

definition Day :: "int \<Rightarrow> int" where
  "Day t = t div msPerDay"

definition TimeWithinDay :: "int \<Rightarrow> int" where
  "TimeWithinDay t = t mod msPerDay"

definition DaysInYear :: "int \<Rightarrow> int" where
  "DaysInYear y =
     (if y mod 4 \<noteq> 0 then 365
      else if y mod 100 \<noteq> 0 then 366
      else if y mod 400 \<noteq> 0 then 365
      else 366)"

definition DayFromYear :: "int \<Rightarrow> int" where
  "DayFromYear y =
     365 * (y - 1970) + (y - 1969) div 4 - (y - 1901) div 100 + (y - 1601) div 400"

text \<open>
  \<open>YearFromTime t\<close> is the largest \<open>y\<close> with \<open>DayFromYear y \<le> Day t\<close>. It is computed
  by a search upwards from a year that is not after it (lemma \<open>YearFromTime_largest\<close>).
\<close>

function year_search :: "int \<Rightarrow> int \<Rightarrow> int" where
  "year_search d y = (if DayFromYear (y + 1) \<le> d then year_search d (y + 1) else y)"
  by pat_completeness auto

lemma div_succ:
  fixes a n :: int
  assumes n: "1 < n"
  shows "(a + 1) div n = a div n + (if (a + 1) mod n = 0 then 1 else 0)"
proof -
  define q where "q = a div n"
  define r where "r = a mod n"
  have a: "a = n * q + r"
    by (simp add: q_def r_def)
  have r: "0 \<le> r" "r < n"
    using n by (simp_all add: r_def)
  show ?thesis
  proof (cases "r + 1 = n")
    case True
    have e: "a + 1 = n * (q + 1) + 0"
      using a True by (simp add: algebra_simps)
    have z: "(0::int) \<le> 0" "0 < n"
      using n by simp_all
    have "(a + 1) div n = q + 1"
      by (rule int_div_pos_eq [OF e z])
    moreover have "(a + 1) mod n = 0"
      by (rule int_mod_pos_eq [OF e z])
    ultimately show ?thesis
      by (simp add: q_def)
  next
    case False
    have e: "a + 1 = n * q + (r + 1)"
      using a by simp
    have b: "0 \<le> r + 1" "r + 1 < n"
      using r False by simp_all
    have "(a + 1) div n = q"
      by (rule int_div_pos_eq [OF e b])
    moreover have "(a + 1) mod n = r + 1"
      by (rule int_mod_pos_eq [OF e b])
    ultimately show ?thesis
      using r by (simp add: q_def)
  qed
qed

lemma mod_shift: "(y - n * k) mod n = y mod n" for y n k :: int
proof -
  have "((y - n * k) + n * k) mod n = (y - n * k) mod n"
    by (rule mod_mult_self2)
  then show ?thesis
    by simp
qed

lemma div_step:
  fixes y n k :: int
  assumes "1 < n"
  shows "(y + 1 - (n * k + 1)) div n = (y - (n * k + 1)) div n + (if y mod n = 0 then 1 else 0)"
proof -
  have e: "y - (n * k + 1) + 1 = y - n * k" "y + 1 - (n * k + 1) = y - n * k"
    by simp_all
  show ?thesis
    using div_succ [OF assms, of "y - (n * k + 1)"] unfolding e mod_shift .
qed

lemma dvd_mod_zero:
  fixes y m n :: int
  assumes "m dvd n" and "y mod n = 0"
  shows "y mod m = 0"
proof -
  from assms(2) have "n dvd y"
    by (simp add: dvd_eq_mod_eq_0)
  with assms(1) have "m dvd y"
    by (rule dvd_trans)
  then show ?thesis
    by (simp add: dvd_eq_mod_eq_0)
qed

lemma DayFromYear_next: "DayFromYear (y + 1) = DayFromYear y + DaysInYear y"
proof -
  define p4 where "p4 \<longleftrightarrow> y mod 4 = 0"
  define p100 where "p100 \<longleftrightarrow> y mod 100 = 0"
  define p400 where "p400 \<longleftrightarrow> y mod 400 = 0"
  define a where "a = (y - 1969) div 4"
  define b where "b = (y - 1901) div 100"
  define c where "c = (y - 1601) div 400"
  have k: "(4::int) * 492 + 1 = 1969" "(100::int) * 19 + 1 = 1901" "(400::int) * 4 + 1 = 1601"
    by simp_all
  have d4: "(y + 1 - 1969) div 4 = a + (if p4 then 1 else 0)"
    using div_step [of 4 y 492] unfolding k a_def p4_def by simp
  have d100: "(y + 1 - 1901) div 100 = b + (if p100 then 1 else 0)"
    using div_step [of 100 y 19] unfolding k b_def p100_def by simp
  have d400: "(y + 1 - 1601) div 400 = c + (if p400 then 1 else 0)"
    using div_step [of 400 y 4] unfolding k c_def p400_def by simp
  have m1: "p100 \<Longrightarrow> p4"
    unfolding p100_def p4_def by (rule dvd_mod_zero [of 4 100]) simp_all
  have m2: "p400 \<Longrightarrow> p100"
    unfolding p400_def p100_def by (rule dvd_mod_zero [of 100 400]) simp_all
  have days: "DaysInYear y =
      365 + (if p4 then 1 else 0) - (if p100 then 1 else 0) + (if p400 then 1 else 0)"
    unfolding DaysInYear_def p4_def [symmetric] p100_def [symmetric] p400_def [symmetric]
    using m1 m2 by (cases p4; cases p100; cases p400) simp_all
  have "DayFromYear (y + 1) =
      365 * (y + 1 - 1970) + (y + 1 - 1969) div 4 - (y + 1 - 1901) div 100 + (y + 1 - 1601) div 400"
    by (simp only: DayFromYear_def)
  also have "\<dots> = 365 * (y - 1970) + a - b + c
      + (365 + (if p4 then 1 else 0) - (if p100 then 1 else 0) + (if p400 then 1 else 0))"
    unfolding d4 d100 d400 by (simp add: algebra_simps)
  also have "\<dots> = DayFromYear y + DaysInYear y"
    unfolding days by (simp only: DayFromYear_def a_def b_def c_def)
  finally show ?thesis .
qed

lemma DaysInYear_ge: "365 \<le> DaysInYear y"
  by (simp add: DaysInYear_def)

termination year_search
proof (relation "measure (\<lambda>(d, y). nat (d + 1 - DayFromYear (y + 1)))")
  show "wf (measure (\<lambda>(d, y). nat (d + 1 - DayFromYear (y + 1))))"
    by simp
next
  fix d y :: int
  assume "DayFromYear (y + 1) \<le> d"
  moreover have "DayFromYear (y + 1 + 1) = DayFromYear (y + 1) + DaysInYear (y + 1)"
    by (rule DayFromYear_next)
  ultimately show "((d, y + 1), (d, y)) \<in> measure (\<lambda>(d, y). nat (d + 1 - DayFromYear (y + 1)))"
    using DaysInYear_ge [of "y + 1"] by simp
qed

declare year_search.simps [simp del]

definition YearFromDay :: "int \<Rightarrow> int" where
  "YearFromDay d = year_search d (1970 + (if 0 \<le> d then d div 366 else d div 365))"

definition YearFromTime :: "int \<Rightarrow> int" where
  "YearFromTime t = YearFromDay (Day t)"

definition InLeapYear :: "int \<Rightarrow> int" where
  "InLeapYear t = (if DaysInYear (YearFromTime t) = 366 then 1 else 0)"

definition DayWithinYear :: "int \<Rightarrow> int" where
  "DayWithinYear t = Day t - DayFromYear (YearFromTime t)"

text \<open>The number of days of the year before month \<open>m\<close> (0 is January), \<open>leap\<close> being 0 or 1.\<close>

definition DaysBeforeMonth :: "int \<Rightarrow> int \<Rightarrow> int" where
  "DaysBeforeMonth leap m =
     (if m = 0 then 0
      else if m = 1 then 31
      else if m = 2 then 59 + leap
      else if m = 3 then 90 + leap
      else if m = 4 then 120 + leap
      else if m = 5 then 151 + leap
      else if m = 6 then 181 + leap
      else if m = 7 then 212 + leap
      else if m = 8 then 243 + leap
      else if m = 9 then 273 + leap
      else if m = 10 then 304 + leap
      else 334 + leap)"

definition MonthFromTime :: "int \<Rightarrow> int" where
  "MonthFromTime t =
     (let dw = DayWithinYear t; leap = InLeapYear t in
      if dw < 31 then 0
      else if dw < 59 + leap then 1
      else if dw < 90 + leap then 2
      else if dw < 120 + leap then 3
      else if dw < 151 + leap then 4
      else if dw < 181 + leap then 5
      else if dw < 212 + leap then 6
      else if dw < 243 + leap then 7
      else if dw < 273 + leap then 8
      else if dw < 304 + leap then 9
      else if dw < 334 + leap then 10
      else 11)"

definition DateFromTime :: "int \<Rightarrow> int" where
  "DateFromTime t = DayWithinYear t - DaysBeforeMonth (InLeapYear t) (MonthFromTime t) + 1"

definition WeekDay :: "int \<Rightarrow> int" where
  "WeekDay t = (Day t + 4) mod 7"

text \<open>
  \<open>MakeDay year month date\<close>: the day number of the first of the month \<open>month mod 12\<close> of the
  year \<open>year + month div 12\<close>, plus \<open>date - 1\<close>.
\<close>

definition MakeDay :: "int \<Rightarrow> int \<Rightarrow> int \<Rightarrow> int" where
  "MakeDay year month dt =
     (let ym = year + month div 12; mn = month mod 12 in
      DayFromYear ym + DaysBeforeMonth (if DaysInYear ym = 366 then 1 else 0) mn + dt - 1)"

definition MakeDate :: "int \<Rightarrow> int \<Rightarrow> int" where
  "MakeDate day time = day * msPerDay + time"

definition TimeClip :: "int \<Rightarrow> date" where
  "TimeClip t = (if \<bar>t\<bar> > 8640000000000000 then None else Some t)"

subsection \<open>The time zone of the host\<close>

text \<open>
  ECMA-262 leaves the time zone to the host: \<open>LocalTime t\<close> is \<open>t\<close> plus the offset of local
  time from UTC at the time value \<open>t\<close>, and \<open>UTC l\<close> is the local time value \<open>l\<close> minus the
  offset that the host uses for that local time (where the clock is set forward or back it
  has to pick one). A time zone is therefore a pair of functions, both in milliseconds: the
  offset at a time value, and the offset for a local time value. With daylight saving
  time neither is constant.

  The time zones considered are those in which
  \<^item> any two offsets differ by less than a day, and
  \<^item> the instant that \<open>UTC\<close> picks for a local time lies on the calendar day of that
    local time (a clock change does not jump over midnight).
  The zones of a fixed offset are among them, and so are the zones that move the clock by
  an hour in the small hours, such as \<open>new_york_2024\<close> in the examples below.
\<close>

definition timezone_ok :: "(int \<Rightarrow> int) \<times> (int \<Rightarrow> int) \<Rightarrow> bool" where
  "timezone_ok z \<longleftrightarrow>
     (\<forall>t l. \<bar>fst z t - snd z l\<bar> < msPerDay)
     \<and> (\<forall>l. Day (l - snd z l + fst z (l - snd z l)) = Day l)"

typedef timezone = "{z :: (int \<Rightarrow> int) \<times> (int \<Rightarrow> int). timezone_ok z}"
  morphisms offsets Abs_timezone
proof
  show "(\<lambda>t. 0, \<lambda>l. 0) \<in> {z :: (int \<Rightarrow> int) \<times> (int \<Rightarrow> int). timezone_ok z}"
    by (simp add: timezone_ok_def msPerDay_def)
qed

setup_lifting type_definition_timezone

definition LocalTime :: "timezone \<Rightarrow> int \<Rightarrow> int" where
  "LocalTime z t = t + fst (offsets z) t"

definition UTC :: "timezone \<Rightarrow> int \<Rightarrow> int" where
  "UTC z l = l - snd (offsets z) l"

text \<open>The time zone with the same offset \<open>c\<close> at all times.\<close>

lift_definition fixed_zone :: "int \<Rightarrow> timezone" is "\<lambda>c. (\<lambda>t. c, \<lambda>l. c)"
  by (simp add: timezone_ok_def msPerDay_def)

subsection \<open>The methods of a \<open>Date\<close>\<close>

definition getDate :: "timezone \<Rightarrow> date \<Rightarrow> number" where
  "getDate z d = map_option (\<lambda>t. DateFromTime (LocalTime z t)) d"

definition getMonth :: "timezone \<Rightarrow> date \<Rightarrow> number" where
  "getMonth z d = map_option (\<lambda>t. MonthFromTime (LocalTime z t)) d"

definition getFullYear :: "timezone \<Rightarrow> date \<Rightarrow> number" where
  "getFullYear z d = map_option (\<lambda>t. YearFromTime (LocalTime z t)) d"

definition getDay :: "timezone \<Rightarrow> date \<Rightarrow> number" where
  "getDay z d = map_option (\<lambda>t. WeekDay (LocalTime z t)) d"

definition plus_number :: "number \<Rightarrow> int \<Rightarrow> number" where
  "plus_number x n = map_option (\<lambda>v. v + n) x"

definition setDate :: "timezone \<Rightarrow> date \<Rightarrow> number \<Rightarrow> date" where
  "setDate z d dt =
     (case (d, dt) of
        (Some t, Some v) \<Rightarrow>
          (let tl = LocalTime z t in
           TimeClip (UTC z
             (MakeDate (MakeDay (YearFromTime tl) (MonthFromTime tl) v) (TimeWithinDay tl))))
      | _ \<Rightarrow> None)"

definition setMonth :: "timezone \<Rightarrow> date \<Rightarrow> number \<Rightarrow> date" where
  "setMonth z d m =
     (case (d, m) of
        (Some t, Some v) \<Rightarrow>
          (let tl = LocalTime z t in
           TimeClip (UTC z
             (MakeDate (MakeDay (YearFromTime tl) v (DateFromTime tl)) (TimeWithinDay tl))))
      | _ \<Rightarrow> None)"

text \<open>\<open>setFullYear\<close> on an Invalid Date starts from the time value 0 (ECMA-262, 21.4.4.21).\<close>

definition setFullYear :: "timezone \<Rightarrow> date \<Rightarrow> number \<Rightarrow> date" where
  "setFullYear z d y =
     (case y of
        None \<Rightarrow> None
      | Some v \<Rightarrow>
          (let tl = (case d of None \<Rightarrow> 0 | Some t \<Rightarrow> LocalTime z t) in
           TimeClip (UTC z
             (MakeDate (MakeDay v (MonthFromTime tl) (DateFromTime tl)) (TimeWithinDay tl)))))"

text \<open>\<open>Date.UTC(year, month, date)\<close> for a date inside the range, used to write dates down.\<close>

definition Date_UTC :: "int \<Rightarrow> int \<Rightarrow> int \<Rightarrow> int" where
  "Date_UTC year month dt = MakeDate (MakeDay year month dt) 0"

subsection \<open>Facts about the date functions\<close>

lemma MonthFromTime_range: "0 \<le> MonthFromTime t \<and> MonthFromTime t \<le> 11"
  by (simp add: MonthFromTime_def Let_def)

lemma MakeDay_in_year:
  assumes "0 \<le> m" "m \<le> 11"
  shows "MakeDay y m dt = DayFromYear y + DaysBeforeMonth (if DaysInYear y = 366 then 1 else 0) m + dt - 1"
proof -
  have "m div 12 = 0" "m mod 12 = m"
    using assms by simp_all
  then show ?thesis
    by (simp add: MakeDay_def)
qed

lemma MakeDay_current: "MakeDay (YearFromTime t) (MonthFromTime t) (DateFromTime t + n) = Day t + n"
proof -
  have "MakeDay (YearFromTime t) (MonthFromTime t) (DateFromTime t + n) =
      DayFromYear (YearFromTime t) + DaysBeforeMonth (InLeapYear t) (MonthFromTime t)
        + (DateFromTime t + n) - 1"
    using MonthFromTime_range [of t] by (simp add: MakeDay_in_year InLeapYear_def)
  also have "\<dots> = Day t + n"
    by (simp add: DateFromTime_def DayWithinYear_def)
  finally show ?thesis .
qed

lemma MakeDate_Day: "MakeDate (Day t + n) (TimeWithinDay t) = t + n * msPerDay"
  by (simp add: MakeDate_def Day_def TimeWithinDay_def algebra_simps)

lemma Day_plus: "Day (t + n * msPerDay) = Day t + n"
  by (simp add: Day_def msPerDay_def)

lemma WeekDay_plus: "WeekDay (t + n * msPerDay) = (WeekDay t + n) mod 7"
  unfolding WeekDay_def Day_plus by (simp add: ac_simps mod_simps)

lemma WeekDay_range: "0 \<le> WeekDay t \<and> WeekDay t < 7"
  by (simp add: WeekDay_def)



lemma TimeClip_Some: "TimeClip t = Some t' \<Longrightarrow> t' = t"
  by (simp add: TimeClip_def split: if_splits)

definition maxTime :: int where
  "maxTime = 8640000000000000"

lemma TimeClip_in_range: "- maxTime \<le> t \<Longrightarrow> t \<le> maxTime \<Longrightarrow> TimeClip t = Some t"
  by (simp add: TimeClip_def maxTime_def)

lemma DaysInYear_cases: "DaysInYear y = 365 \<or> DaysInYear y = 366"
  by (simp add: DaysInYear_def)






lemma Day_eqI:
  assumes "d * msPerDay \<le> t" and "t < (d + 1) * msPerDay"
  shows "Day t = d"
proof -
  have e: "t = msPerDay * d + (t - d * msPerDay)"
    by simp
  have b: "0 \<le> t - d * msPerDay" "t - d * msPerDay < msPerDay"
    using assms by (simp_all add: algebra_simps)
  show ?thesis
    unfolding Day_def by (rule int_div_pos_eq [OF e b])
qed

subsection \<open>Facts about local time\<close>

lemma offsets_ok: "timezone_ok (offsets z)"
  using offsets [of z] by simp

lemma offsets_close: "\<bar>fst (offsets z) t - snd (offsets z) l\<bar> < msPerDay"
  using offsets_ok [of z] by (simp add: timezone_ok_def)

lemma LocalTime_UTC_Day: "Day (LocalTime z (UTC z l)) = Day l"
  using offsets_ok [of z] by (simp add: timezone_ok_def LocalTime_def UTC_def)

text \<open>
  A local time that lies between \<open>a\<close> and \<open>b\<close> days after the local time of \<open>t\<close> is the
  local time of an instant less than a day outside of these bounds.
\<close>

lemma UTC_bounds:
  assumes "LocalTime z t + a * msPerDay \<le> l" and "l \<le> LocalTime z t + b * msPerDay"
  shows "t + (a - 1) * msPerDay < UTC z l \<and> UTC z l < t + (b + 1) * msPerDay"
proof -
  define f where "f = fst (offsets z) t"
  define g where "g = snd (offsets z) l"
  have c: "f - g < msPerDay" "g - f < msPerDay"
    using offsets_close [of z t l] by (simp_all add: f_def g_def abs_less_iff)
  have l: "t + f + a * msPerDay \<le> l" "l \<le> t + f + b * msPerDay"
    using assms by (simp_all add: LocalTime_def f_def)
  have e: "(a - 1) * msPerDay = a * msPerDay - msPerDay" "(b + 1) * msPerDay = b * msPerDay + msPerDay"
    by (simp_all add: algebra_simps)
  show ?thesis
    unfolding UTC_def g_def [symmetric] e using c l by linarith
qed

text \<open>
  What a setter does that moves the local time at least one day and at most \<open>b\<close> days
  forward: if the result is a valid date, it is after \<open>t\<close> and less than \<open>b + 1\<close> days
  after it; and it is a valid date when \<open>t\<close> lies \<open>b + 1\<close> days before the end of the
  range of time values.
\<close>

definition advances :: "int \<Rightarrow> int \<Rightarrow> date \<Rightarrow> bool" where
  "advances t b d \<longleftrightarrow>
     (\<forall>t'. d = Some t' \<longrightarrow> t < t' \<and> t' < t + (b + 1) * msPerDay)
     \<and> (- maxTime \<le> t \<and> t + (b + 1) * msPerDay \<le> maxTime \<longrightarrow> d \<noteq> None)"

lemma TimeClip_UTC_advances:
  assumes "LocalTime z t + msPerDay \<le> l" and "l \<le> LocalTime z t + b * msPerDay"
  shows "advances t b (TimeClip (UTC z l))"
proof -
  have "t + (1 - 1) * msPerDay < UTC z l \<and> UTC z l < t + (b + 1) * msPerDay"
    using assms by (intro UTC_bounds) simp_all
  then have u: "t < UTC z l" "UTC z l < t + (b + 1) * msPerDay"
    by simp_all
  have "- maxTime \<le> t \<Longrightarrow> t + (b + 1) * msPerDay \<le> maxTime
      \<Longrightarrow> TimeClip (UTC z l) = Some (UTC z l)"
    using u by (intro TimeClip_in_range) simp_all
  with u show ?thesis
    by (auto simp add: advances_def dest: TimeClip_Some)
qed

lemma setDate_plus:
  "setDate z (Some t) (plus_number (getDate z (Some t)) n)
     = TimeClip (UTC z (LocalTime z t + n * msPerDay))"
  by (simp add: setDate_def plus_number_def getDate_def Let_def MakeDay_current MakeDate_Day)

lemma setDate_advances:
  assumes "1 \<le> n"
  shows "advances t n (setDate z (Some t) (plus_number (getDate z (Some t)) n))"
proof -
  have "1 * msPerDay \<le> n * msPerDay"
    using assms by (intro mult_right_mono) (simp_all add: msPerDay_def)
  then have "LocalTime z t + msPerDay \<le> LocalTime z t + n * msPerDay"
    by simp
  then show ?thesis
    unfolding setDate_plus by (rule TimeClip_UTC_advances) simp
qed



text \<open>\<open>YearFromTime\<close> meets its specification.\<close>

lemma DayFromYear_1970: "DayFromYear 1970 = 0"
  by (simp add: DayFromYear_def)

lemma DayFromYear_upper:
  assumes "0 \<le> n"
  shows "DayFromYear (1970 + n) \<le> 366 * n"
  using assms
proof (induction n rule: int_ge_induct)
  case base
  show ?case
    by (simp add: DayFromYear_1970)
next
  case (step i)
  have "DayFromYear (1970 + i + 1) = DayFromYear (1970 + i) + DaysInYear (1970 + i)"
    by (rule DayFromYear_next)
  with step.IH DaysInYear_cases [of "1970 + i"] show ?case
    by (auto simp add: add.assoc)
qed

lemma DayFromYear_lower:
  assumes "n \<le> 0"
  shows "DayFromYear (1970 + n) \<le> 365 * n"
  using assms
proof (induction n rule: int_le_induct)
  case base
  show ?case
    by (simp add: DayFromYear_1970)
next
  case (step i)
  have "DayFromYear (1970 + (i - 1) + 1) = DayFromYear (1970 + (i - 1)) + DaysInYear (1970 + (i - 1))"
    by (rule DayFromYear_next)
  moreover have "1970 + (i - 1) + 1 = 1970 + i"
    by simp
  ultimately have "DayFromYear (1970 + (i - 1)) = DayFromYear (1970 + i) - DaysInYear (1970 + (i - 1))"
    by simp
  with step.IH DaysInYear_cases [of "1970 + (i - 1)"] show ?case
    by auto
qed

lemma year_search_start: "DayFromYear (1970 + (if 0 \<le> d then d div 366 else d div 365)) \<le> d"
proof (cases "0 \<le> d")
  case True
  have "0 \<le> d div 366"
    using True by (simp add: pos_imp_zdiv_nonneg_iff)
  then have "DayFromYear (1970 + d div 366) \<le> 366 * (d div 366)"
    by (rule DayFromYear_upper)
  moreover have "d = 366 * (d div 366) + d mod 366" "0 \<le> d mod 366"
    by simp_all
  ultimately show ?thesis
    using True by simp
next
  case False
  then have "d div 365 \<le> 0"
    by (simp add: div_int_pos_iff not_le)
  then have "DayFromYear (1970 + d div 365) \<le> 365 * (d div 365)"
    by (rule DayFromYear_lower)
  moreover have "d = 365 * (d div 365) + d mod 365" "0 \<le> d mod 365"
    by simp_all
  ultimately show ?thesis
    using False by simp
qed

lemma year_search_bracket:
  "DayFromYear y \<le> d \<Longrightarrow>
   DayFromYear (year_search d y) \<le> d \<and> d < DayFromYear (year_search d y + 1)"
proof (induction d y rule: year_search.induct)
  case (1 d y)
  show ?case
  proof (cases "DayFromYear (y + 1) \<le> d")
    case True
    from "1.IH" [OF True True] show ?thesis
      by (subst (1 2) year_search.simps) (simp add: True)
  next
    case False
    with "1.prems" show ?thesis
      by (subst (1 2) year_search.simps) simp
  qed
qed

lemma YearFromTime_bracket:
  "DayFromYear (YearFromTime t) \<le> Day t \<and> Day t < DayFromYear (YearFromTime t + 1)"
  unfolding YearFromTime_def YearFromDay_def
  by (rule year_search_bracket) (rule year_search_start)

lemma DayFromYear_mono:
  assumes "y \<le> z"
  shows "DayFromYear y \<le> DayFromYear z"
  using assms
proof (induction z rule: int_ge_induct)
  case base
  show ?case
    by simp
next
  case (step i)
  have "DayFromYear (i + 1) = DayFromYear i + DaysInYear i"
    by (rule DayFromYear_next)
  with step.IH DaysInYear_ge [of i] show ?case
    by simp
qed

lemma YearFromTime_largest:
  "DayFromYear (YearFromTime t) \<le> Day t
    \<and> (\<forall>y. DayFromYear y \<le> Day t \<longrightarrow> y \<le> YearFromTime t)"
proof (intro conjI allI impI)
  show "DayFromYear (YearFromTime t) \<le> Day t"
    using YearFromTime_bracket [of t] by simp
next
  fix y
  assume a: "DayFromYear y \<le> Day t"
  show "y \<le> YearFromTime t"
  proof (rule ccontr)
    assume "\<not> y \<le> YearFromTime t"
    then have "YearFromTime t + 1 \<le> y"
      by simp
    then have "DayFromYear (YearFromTime t + 1) \<le> DayFromYear y"
      by (rule DayFromYear_mono)
    with a YearFromTime_bracket [of t] show False
      by simp
  qed
qed

section \<open>The data model (\<open>types.ts\<close>)\<close>

text \<open>
  The enums and interfaces of \<open>types.ts\<close>. A field \<open>f?: T\<close> is a \<open>T option\<close>. The fields of
  the smaller interfaces carry a prefix (\<open>st_\<close>, \<open>log_\<close>, \<open>lb_\<close>, \<open>rm_\<close>, \<open>at_\<close>, \<open>tl_\<close>), the
  field \<open>id\<close> of a task is \<open>task_id\<close>, and the member \<open>None\<close> of the two enums is
  \<open>Priority_None\<close> and \<open>Recurrence_None\<close>, since these names are taken in HOL. A field that
  holds an ISO date string (\<open>dueDate\<close>, \<open>deadline\<close>, a reminder's \<open>time\<close>) is modelled by the
  time value the string denotes, so \<open>new Date(s)\<close> and \<open>d.toISOString()\<close> do not change the
  representation; \<open>toISOString\<close> raises a RangeError on an Invalid Date. The strings are
  taken to be in the one form that \<open>toISOString\<close> writes, which is what the handlers and
  the dialog store: for such strings \<open>s !== s'\<close> says that the time values differ. Two
  different spellings of one instant are not told apart here. \<open>createdAt\<close> and a
  log's \<open>timestamp\<close> are readings of \<open>Date.now()\<close>. The \<open>amount\<close> of a custom recurrence is
  a whole number (the dialog stores the result of \<open>parseInt\<close>).

  \<open>labelIds\<close> is the one array that the code sorts in place (\<open>Array.prototype.sort\<close> in
  \<open>handleUpdateTask\<close>), and the object spread \<open>{...task}\<close> copies the reference to it, not
  the array. A task therefore holds the address of its label array, and the arrays live
  in the store. Every other array is only ever replaced by a new one, so it is modelled by
  its value.
\<close>

datatype Priority = Priority_None | Low | Medium | High

datatype Recurrence = Recurrence_None | Daily | Weekdays | Weekly | Monthly | Yearly | Custom

datatype RecurrenceUnit = Days | Weeks | Months | Years

record RecurrenceCustom =
  amount :: int
  unit :: RecurrenceUnit

record SubTask =
  st_id :: string
  st_title :: string
  st_completed :: bool
  st_dueDate :: "int option"

record TaskLog =
  log_id :: string
  log_timestamp :: int
  log_message :: string

record Label =
  lb_id :: string
  lb_name :: string
  lb_color :: string

record Reminder =
  rm_id :: string
  rm_time :: int
  rm_fired :: bool

datatype AttachmentType = File | Link

record Attachment =
  at_id :: string
  at_name :: string
  at_type :: AttachmentType
  at_url :: string
  at_mimeType :: "string option"
  at_size :: "int option"

type_synonym addr = nat

record Task =
  task_id :: string
  listId :: string
  title :: string
  description :: "string option"
  completed :: bool
  dueDate :: "int option"
  deadline :: "int option"
  reminders :: "Reminder list"
  estimate :: "string option"
  actualTime :: "string option"
  priority :: Priority
  subtasks :: "SubTask list"
  recurrence :: Recurrence
  recurrenceCustom :: "RecurrenceCustom option"
  labelIds :: addr
  attachments :: "Attachment list"
  color :: "string option"
  logs :: "TaskLog list"
  createdAt :: int

record TaskList =
  tl_id :: string
  tl_name :: string
  tl_color :: string
  tl_icon :: string
  tl_isDefault :: "bool option"

text \<open>The task collection of \<open>App\<close> (the state \<open>tasks\<close>) with the label arrays it refers to.\<close>

record store =
  tasks :: "Task list"
  arrays :: "addr \<Rightarrow> string list"

text \<open>
  What the code reads from its surroundings: \<open>randomUUID k\<close> is the value of the \<open>k\<close>-th
  call site of \<open>crypto.randomUUID()\<close> in one run of a handler, \<open>now k\<close> the reading of the
  clock at the \<open>k\<close>-th call site of \<open>Date.now()\<close> or \<open>new Date()\<close>, \<open>timeZone\<close> the time zone
  of the host, and \<open>toLocaleDateString\<close>, \<open>localeCompare\<close> and \<open>toLowerCase\<close> the host's
  rendering of a date in its locale, its collation of two strings, and its
  \<open>String.prototype.toLowerCase\<close>.
\<close>

record env =
  randomUUID :: "nat \<Rightarrow> string"
  now :: "nat \<Rightarrow> int"
  timeZone :: timezone
  toLocaleDateString :: "int \<Rightarrow> string"
  localeCompare :: "string \<Rightarrow> string \<Rightarrow> int"
  toLowerCase :: "string \<Rightarrow> string"

datatype js_error = RangeError

definition toISOString :: "date \<Rightarrow> js_error + int" where
  "toISOString d = (case d of None \<Rightarrow> Inl RangeError | Some t \<Rightarrow> Inr t)"

section \<open>The recurrence calculator (\<open>calculateNextDueDate\<close>, App.tsx 47--85)\<close>

text \<open>
  The \<open>do ... while\<close> loop of the case \<open>Recurrence.Weekdays\<close>: one day forward, again while
  the day of the week is Sunday (0) or Saturday (6). \<open>getDay\<close> of an Invalid Date is NaN, which
  equals neither, so the loop ends there. \<open>z\<close> is the time zone of the host.
\<close>

function weekdays_loop :: "timezone \<Rightarrow> date \<Rightarrow> date" where
  "weekdays_loop z date =
     (let date' = setDate z date (plus_number (getDate z date) 1) in
      if getDay z date' = Some 0 \<or> getDay z date' = Some 6 then weekdays_loop z date' else date')"
  by pat_completeness auto

text \<open>
  The loop ends: the setter moves the local calendar day forward by one, so after a
  Saturday and a Sunday the day of the week is Monday.
\<close>

definition weekdays_left :: "timezone \<Rightarrow> date \<Rightarrow> nat" where
  "weekdays_left z d =
     (case getDay z d of None \<Rightarrow> 0 | Some w \<Rightarrow> if w = 5 then 2 else if w = 6 then 1 else 0)"

lemma setDate_next_day:
  assumes "getDay z (setDate z d (plus_number (getDate z d) 1)) = Some w"
  obtains t t' where "d = Some t" "setDate z d (plus_number (getDate z d) 1) = Some t'"
    "Day (LocalTime z t') = Day (LocalTime z t) + 1" "t < t'" "t' < t + 2 * msPerDay"
    "w = (WeekDay (LocalTime z t) + 1) mod 7"
proof (cases d)
  case None
  with assms show ?thesis
    by (simp add: setDate_def getDay_def)
next
  case (Some t)
  have s: "setDate z d (plus_number (getDate z d) 1)
      = TimeClip (UTC z (LocalTime z t + 1 * msPerDay))"
    unfolding Some by (rule setDate_plus)
  from assms obtain t' where t': "setDate z d (plus_number (getDate z d) 1) = Some t'"
    by (auto simp add: getDay_def)
  have u: "t' = UTC z (LocalTime z t + 1 * msPerDay)"
    using t' unfolding s by (rule TimeClip_Some)
  have day: "Day (LocalTime z t') = Day (LocalTime z t) + 1"
    unfolding u LocalTime_UTC_Day by (rule Day_plus)
  have "advances t 1 (setDate z (Some t) (plus_number (getDate z (Some t)) 1))"
    by (rule setDate_advances) simp
  then have b: "t < t'" "t' < t + 2 * msPerDay"
    using t' unfolding Some by (simp_all add: advances_def)
  have "w = WeekDay (LocalTime z t')"
    using assms t' by (simp add: getDay_def)
  then have w: "w = (WeekDay (LocalTime z t) + 1) mod 7"
    unfolding WeekDay_def day by (simp add: ac_simps mod_simps)
  from Some t' day b w show ?thesis
    by (rule that)
qed

lemma weekdays_left_decreases:
  assumes "getDay z (setDate z d (plus_number (getDate z d) 1)) = Some 0
    \<or> getDay z (setDate z d (plus_number (getDate z d) 1)) = Some 6"
  shows "weekdays_left z (setDate z d (plus_number (getDate z d) 1)) < weekdays_left z d"
proof -
  from assms obtain w where w: "getDay z (setDate z d (plus_number (getDate z d) 1)) = Some w"
    and w06: "w = 0 \<or> w = 6"
    by auto
  from w obtain t where t: "d = Some t" "w = (WeekDay (LocalTime z t) + 1) mod 7"
    by (rule setDate_next_day)
  have "WeekDay (LocalTime z t) = (if w = 0 then 6 else 5)"
    using w06 t(2) WeekDay_range [of "LocalTime z t"] by arith
  then have "weekdays_left z d = (if w = 0 then 1 else 2)"
    by (simp add: weekdays_left_def getDay_def t(1))
  moreover have "weekdays_left z (setDate z d (plus_number (getDate z d) 1))
      = (if w = 0 then 0 else 1)"
    using w06 by (auto simp add: weekdays_left_def w)
  ultimately show ?thesis
    by simp
qed

termination weekdays_loop
  by (relation "measure (\<lambda>(z, d). weekdays_left z d)") (simp_all add: weekdays_left_decreases)

declare weekdays_loop.simps [simp del]

definition calculateNextDueDate ::
  "timezone \<Rightarrow> int option \<Rightarrow> Recurrence \<Rightarrow> RecurrenceCustom option \<Rightarrow> date option" where
  "calculateNextDueDate z currentDateStr rec custom =
     (case currentDateStr of
        None \<Rightarrow> None
      | Some s \<Rightarrow>
          (let date = Some s in
           Some (case rec of
             Daily \<Rightarrow> setDate z date (plus_number (getDate z date) 1)
           | Weekly \<Rightarrow> setDate z date (plus_number (getDate z date) 7)
           | Monthly \<Rightarrow> setMonth z date (plus_number (getMonth z date) 1)
           | Yearly \<Rightarrow> setFullYear z date (plus_number (getFullYear z date) 1)
           | Weekdays \<Rightarrow> weekdays_loop z date
           | Custom \<Rightarrow>
               (case custom of
                  None \<Rightarrow> date
                | Some c \<Rightarrow>
                    (case unit c of
                       Days \<Rightarrow> setDate z date (plus_number (getDate z date) (amount c))
                     | Weeks \<Rightarrow> setDate z date (plus_number (getDate z date) (amount c * 7))
                     | Months \<Rightarrow> setMonth z date (plus_number (getMonth z date) (amount c))
                     | Years \<Rightarrow> setFullYear z date (plus_number (getFullYear z date) (amount c))))
           | Recurrence_None \<Rightarrow> date)))"

subsection \<open>Facts about the loop over the weekdays\<close>





section \<open>The task store (\<open>App.tsx\<close>)\<close>

subsection \<open>\<open>handleToggleTask\<close> (App.tsx 216--269)\<close>

text \<open>\<open>Array.prototype.findIndex\<close>; \<open>None\<close> stands for the result \<open>-1\<close>.\<close>

fun findIndex :: "('a \<Rightarrow> bool) \<Rightarrow> 'a list \<Rightarrow> nat option" where
  "findIndex p [] = None"
| "findIndex p (x # xs) = (if p x then Some 0 else map_option Suc (findIndex p xs))"

text \<open>
  The state updater passed to \<open>setTasks\<close>. It returns the new task array, or the error
  raised by \<open>nextDate.toISOString()\<close>, in which case the state is not replaced. The label
  arrays are not touched. The call sites read the surroundings as follows:
  \<open>randomUUID 0\<close>, \<open>now 0\<close>: the completion log entry; \<open>now 1\<close>: \<open>new Date()\<close> for a task
  without a due date; \<open>randomUUID 1\<close>: the id of the next task; \<open>randomUUID 2\<close>, \<open>now 2\<close>:
  its log entry; \<open>now 3\<close>: its \<open>createdAt\<close>.
\<close>

definition handleToggleTask :: "env \<Rightarrow> string \<Rightarrow> Task list \<Rightarrow> js_error + Task list" where
  "handleToggleTask e i prev =
     (case findIndex (\<lambda>t. task_id t = i) prev of
        None \<Rightarrow> Inr prev
      | Some taskIndex \<Rightarrow>
          (let task = prev ! taskIndex;
               newCompletedStatus = (\<not> completed task);
               updatedTask = task
                 \<lparr>completed := newCompletedStatus,
                  logs := logs task @
                    [\<lparr>log_id = randomUUID e 0, log_timestamp = now e 0,
                      log_message =
                        (if newCompletedStatus then ''Completed task'' else ''Uncompleted task'')\<rparr>]\<rparr>;
               newTasks = prev[taskIndex := updatedTask]
           in if newCompletedStatus \<and> recurrence task \<noteq> Recurrence_None then
                (case calculateNextDueDate (timeZone e)
                        (Some (case dueDate task of Some d \<Rightarrow> d | None \<Rightarrow> now e 1))
                        (recurrence task) (recurrenceCustom task) of
                   None \<Rightarrow> Inr newTasks
                 | Some nextDate \<Rightarrow>
                     (case toISOString nextDate of
                        Inl err \<Rightarrow> Inl err
                      | Inr isoString \<Rightarrow>
                          Inr (task
                            \<lparr>task_id := randomUUID e 1,
                             completed := False,
                             dueDate := Some isoString,
                             reminders := [],
                             attachments := [],
                             logs :=
                               [\<lparr>log_id = randomUUID e 2, log_timestamp = now e 2,
                                 log_message =
                                   ''Recurring task created from '' @ [CHR 0x27] @ title task
                                     @ [CHR 0x27]\<rparr>],
                             createdAt := now e 3\<rparr> # newTasks)))
              else Inr newTasks))"

subsection \<open>\<open>handleDeleteTask\<close> (App.tsx 400--403)\<close>

text \<open>The updater of the task array; \<open>setSelectedTask(null)\<close> only clears the selection of the view.\<close>

definition handleDeleteTask :: "string \<Rightarrow> Task list \<Rightarrow> Task list" where
  "handleDeleteTask i prev = filter (\<lambda>t. task_id t \<noteq> i) prev"

subsection \<open>The reminder check (App.tsx 154--186)\<close>

text \<open>
  One run of the interval callback at the time \<open>now\<close>. The result is the new task array and
  the notifications shown, each a title and a body; \<open>granted\<close> says whether
  \<open>Notification.permission\<close> is \<open>'granted'\<close>. A reminder's \<open>time\<close> is the time value of its
  ISO string.
\<close>

definition truthy :: "string option \<Rightarrow> bool" where
  "truthy s = (case s of None \<Rightarrow> False | Some x \<Rightarrow> x \<noteq> [])"

text \<open>
  The callback of \<open>currentTasks.map\<close>: the task it returns, whether it set \<open>hasUpdates\<close>,
  and the notifications it showed.
\<close>

definition checkTask :: "bool \<Rightarrow> int \<Rightarrow> Task \<Rightarrow> Task \<times> bool \<times> (string \<times> string) list" where
  "checkTask granted n task =
     (if completed task \<or> reminders task = [] then (task, False, [])
      else
        (let remindersToFire = filter (\<lambda>r. \<not> rm_fired r \<and> rm_time r \<le> n) (reminders task) in
         if remindersToFire \<noteq> [] then
           (task\<lparr>reminders :=
              map (\<lambda>r. if list_ex (\<lambda>rt. rm_id rt = rm_id r) remindersToFire
                        then r\<lparr>rm_fired := True\<rparr> else r)
                  (reminders task)\<rparr>,
            True,
            (if granted then
               map (\<lambda>_. (''Reminder: '' @ title task,
                          if truthy (description task) then the (description task)
                          else ''You have a task scheduled.''))
                   remindersToFire
             else []))
         else (task, False, [])))"

definition reminderCheck :: "bool \<Rightarrow> int \<Rightarrow> Task list \<Rightarrow> Task list \<times> (string \<times> string) list" where
  "reminderCheck granted n currentTasks =
     (let results = map (checkTask granted n) currentTasks;
          hasUpdates = list_ex (\<lambda>r. fst (snd r)) results;
          updatedTasks = map fst results
      in (if hasUpdates then updatedTasks else currentTasks,
          concat (map (\<lambda>r. snd (snd r)) results)))"

subsection \<open>\<open>handleUpdateTask\<close> (App.tsx 271--398)\<close>

text \<open>
  The log messages are built from template strings; \<open>quoted s\<close> is \<open>s\<close> between double
  quotes. \<open>priority_string\<close> gives the string value of the enum \<open>Priority\<close>.
\<close>

definition quoted :: "string \<Rightarrow> string" where
  "quoted s = [CHR 0x22] @ s @ [CHR 0x22]"

definition priority_string :: "Priority \<Rightarrow> string" where
  "priority_string p =
     (case p of Priority_None \<Rightarrow> ''None'' | Low \<Rightarrow> ''Low'' | Medium \<Rightarrow> ''Medium'' | High \<Rightarrow> ''High'')"

text \<open>
  \<open>lists.find(l => l.id === i)?.name || 'Inbox'\<close> and the same for a label's name. The
  state \<open>lists\<close> of \<open>App\<close> is called \<open>taskLists\<close> here.
\<close>

definition listName :: "TaskList list \<Rightarrow> string \<Rightarrow> string" where
  "listName taskLists i =
     (case find (\<lambda>l. tl_id l = i) taskLists of
        None \<Rightarrow> ''Inbox''
      | Some l \<Rightarrow> if tl_name l = [] then ''Inbox'' else tl_name l)"

definition labelName :: "Label list \<Rightarrow> string \<Rightarrow> string" where
  "labelName labels i =
     (case find (\<lambda>l. lb_id l = i) labels of
        None \<Rightarrow> ''Unknown''
      | Some l \<Rightarrow> if lb_name l = [] then ''Unknown'' else lb_name l)"

text \<open>
  The messages that \<open>addLog\<close> receives, field by field; \<open>diffMessages\<close> below puts them in the
  order of the source. \<open>t\<close> is the stored task and \<open>u\<close> the incoming \<open>updatedTask\<close>.
\<close>

definition titleMessages :: "Task \<Rightarrow> Task \<Rightarrow> string list" where
  "titleMessages t u = (if title t \<noteq> title u then [''Renamed to '' @ quoted (title u)] else [])"

definition descriptionMessages :: "Task \<Rightarrow> Task \<Rightarrow> string list" where
  "descriptionMessages t u =
     (if description t \<noteq> description u then
        (if \<not> truthy (description t) \<and> truthy (description u) then [''Added description'']
         else if truthy (description t) \<and> \<not> truthy (description u) then [''Removed description'']
         else [''Updated description''])
      else [])"

definition dueDateMessages :: "env \<Rightarrow> Task \<Rightarrow> Task \<Rightarrow> string list" where
  "dueDateMessages e t u =
     (if dueDate t \<noteq> dueDate u then
        (case dueDate u of
           Some d \<Rightarrow>
             (let dateStr = toLocaleDateString e d in
              [if dueDate t \<noteq> None then ''Rescheduled to '' @ dateStr
               else ''Set due date to '' @ dateStr])
         | None \<Rightarrow> [''Removed due date''])
      else [])"

definition deadlineMessages :: "env \<Rightarrow> Task \<Rightarrow> Task \<Rightarrow> string list" where
  "deadlineMessages e t u =
     (if deadline t \<noteq> deadline u then
        (case deadline u of
           Some d \<Rightarrow>
             (let dateStr = toLocaleDateString e d in
              [if deadline t \<noteq> None then ''Changed deadline to '' @ dateStr
               else ''Set deadline to '' @ dateStr])
         | None \<Rightarrow> [''Removed deadline''])
      else [])"

definition priorityMessages :: "Task \<Rightarrow> Task \<Rightarrow> string list" where
  "priorityMessages t u =
     (if priority t \<noteq> priority u then
        [''Changed priority from '' @ priority_string (priority t) @ '' to ''
           @ priority_string (priority u)]
      else [])"

definition listMessages :: "TaskList list \<Rightarrow> Task \<Rightarrow> Task \<Rightarrow> string list" where
  "listMessages taskLists t u =
     (if listId t \<noteq> listId u then
        (let oldList = listName taskLists (listId t); newList = listName taskLists (listId u) in
         [''Moved from '' @ oldList @ '' to '' @ newList])
      else [])"

definition estimateMessages :: "Task \<Rightarrow> Task \<Rightarrow> string list" where
  "estimateMessages t u =
     (if estimate t \<noteq> estimate u then
        (if truthy (estimate u) then [''Set estimate to '' @ the (estimate u)]
         else [''Removed estimate''])
      else [])"

definition actualTimeMessages :: "Task \<Rightarrow> Task \<Rightarrow> string list" where
  "actualTimeMessages t u =
     (if actualTime t \<noteq> actualTime u then
        (if truthy (actualTime u) then [''Logged actual time: '' @ the (actualTime u)]
         else [''Removed actual time log''])
      else [])"

text \<open>
  \<open>differ\<close> is the outcome of comparing the two \<open>JSON.stringify\<close> strings; \<open>oldLabels\<close> and
  \<open>newLabels\<close> are the two arrays as they are after both have been sorted.
\<close>

definition labelMessages :: "Label list \<Rightarrow> bool \<Rightarrow> string list \<Rightarrow> string list \<Rightarrow> string list" where
  "labelMessages labels differ oldLabels newLabels =
     (if differ then
        (let added = filter (\<lambda>i. i \<notin> set oldLabels) newLabels;
             removed = filter (\<lambda>i. i \<notin> set newLabels) oldLabels
         in map (\<lambda>i. ''Added label '' @ quoted (labelName labels i)) added
            @ map (\<lambda>i. ''Removed label '' @ quoted (labelName labels i)) removed)
      else [])"

definition attachmentMessages :: "Task \<Rightarrow> Task \<Rightarrow> string list" where
  "attachmentMessages t u =
     (let oldAttachments = attachments t; newAttachments = attachments u in
      if length oldAttachments \<noteq> length newAttachments then
        (let added = filter (\<lambda>a. \<not> list_ex (\<lambda>oa. at_id oa = at_id a) oldAttachments) newAttachments;
             removed = filter (\<lambda>a. \<not> list_ex (\<lambda>na. at_id na = at_id a) newAttachments) oldAttachments
         in map (\<lambda>a. ''Added attachment '' @ quoted (at_name a)) added
            @ map (\<lambda>a. ''Removed attachment '' @ quoted (at_name a)) removed)
      else [])"

text \<open>
  \<open>new Map(subtasks.map(s => [s.id, s]))\<close>: of two subtasks with one id the later one stays,
  so \<open>get\<close> finds the last subtask with that id.
\<close>

definition subtasksMap_get :: "SubTask list \<Rightarrow> string \<Rightarrow> SubTask option" where
  "subtasksMap_get ss i = find (\<lambda>s. st_id s = i) (rev ss)"

definition subtaskMessages :: "SubTask option \<Rightarrow> SubTask \<Rightarrow> string list" where
  "subtaskMessages old ns =
     (case old of
        None \<Rightarrow> [''Added subtask: '' @ quoted (st_title ns)]
      | Some os \<Rightarrow>
          (if st_completed os \<noteq> st_completed ns then
             [(if st_completed ns then ''Completed'' else ''Uncompleted'') @ '' subtask: ''
                @ quoted (st_title ns)]
           else [])
          @ (if st_title os \<noteq> st_title ns then [''Renamed subtask to '' @ quoted (st_title ns)]
             else [])
          @ (if st_dueDate os \<noteq> st_dueDate ns then
               (if st_dueDate ns \<noteq> None \<and> st_dueDate os = None then
                  [''Set due date for subtask '' @ quoted (st_title ns)]
                else if st_dueDate ns = None \<and> st_dueDate os \<noteq> None then
                  [''Removed due date from subtask '' @ quoted (st_title ns)]
                else if st_dueDate ns \<noteq> None \<and> st_dueDate os \<noteq> None then
                  [''Rescheduled subtask '' @ quoted (st_title ns)]
                else [])
             else []))"

definition subtasksMessages :: "Task \<Rightarrow> Task \<Rightarrow> string list" where
  "subtasksMessages t u =
     (let oldSubtasks = subtasks t; newSubtasks = subtasks u in
      concat (map (\<lambda>ns. subtaskMessages (subtasksMap_get oldSubtasks (st_id ns)) ns) newSubtasks)
      @ concat (map (\<lambda>os. if subtasksMap_get newSubtasks (st_id os) = None
                           then [''Deleted subtask: '' @ quoted (st_title os)] else [])
                    oldSubtasks))"

text \<open>
  \<open>newLogs\<close>: the \<open>k\<close>-th call of \<open>addLog\<close> draws \<open>randomUUID k\<close>; the timestamp is the one
  reading \<open>now 0\<close> taken at the start.
\<close>

definition newLogs :: "env \<Rightarrow> string list \<Rightarrow> TaskLog list" where
  "newLogs e msgs =
     map (\<lambda>(k, msg). \<lparr>log_id = randomUUID e k, log_timestamp = now e 0, log_message = msg\<rparr>)
         (enumerate 0 msgs)"

definition meaningfulLogsFromModal :: "Task \<Rightarrow> Task \<Rightarrow> TaskLog list" where
  "meaningfulLogsFromModal t u =
     (let previousLogIds = set (map log_id (logs t));
          logsFromModal = filter (\<lambda>l. log_id l \<notin> previousLogIds) (logs u)
      in filter (\<lambda>l. log_message l \<noteq> ''Updated task details'') logsFromModal)"

text \<open>
  The callback of \<open>prev.map\<close> on a task \<open>t\<close> whose id is that of \<open>updatedTask\<close>. It sorts
  the label array of \<open>t\<close> and then that of \<open>updatedTask\<close> where they lie
  (\<open>oldLabels.sort()\<close>, \<open>newLabels.sort()\<close>), so it returns the new task together with the
  label arrays. \<open>Array.prototype.sort\<close> without a comparator orders strings by their code
  units, which is the order of \<open>sort\<close> on \<open>string\<close>.
\<close>

definition diffMessages ::
  "env \<Rightarrow> TaskList list \<Rightarrow> Label list \<Rightarrow> bool \<Rightarrow> string list \<Rightarrow> string list \<Rightarrow> Task \<Rightarrow> Task
     \<Rightarrow> string list" where
  "diffMessages e taskLists labels differ oldLabels newLabels t u =
     titleMessages t u
     @ descriptionMessages t u
     @ dueDateMessages e t u
     @ deadlineMessages e t u
     @ priorityMessages t u
     @ listMessages taskLists t u
     @ estimateMessages t u
     @ actualTimeMessages t u
     @ labelMessages labels differ oldLabels newLabels
     @ attachmentMessages t u
     @ subtasksMessages t u"

definition updateTask ::
  "env \<Rightarrow> TaskList list \<Rightarrow> Label list \<Rightarrow> Task \<Rightarrow> (addr \<Rightarrow> string list) \<Rightarrow> Task
     \<Rightarrow> Task \<times> (addr \<Rightarrow> string list)" where
  "updateTask e taskLists labels updatedTask h t =
     (let h1 = h(labelIds t := sort (h (labelIds t)));
          oldJson = h1 (labelIds t);
          h2 = h1(labelIds updatedTask := sort (h1 (labelIds updatedTask)));
          newJson = h2 (labelIds updatedTask);
          msgs = diffMessages e taskLists labels (oldJson \<noteq> newJson)
                   (h2 (labelIds t)) (h2 (labelIds updatedTask)) t updatedTask;
          finalLogs = logs t @ meaningfulLogsFromModal t updatedTask @ newLogs e msgs
      in (updatedTask\<lparr>logs := finalLogs\<rparr>, h2))"

text \<open>
  \<open>prev.map(t => ...)\<close> from the element with index \<open>k\<close> on; \<open>es k\<close> is what the callback
  reads from its surroundings on the element with index \<open>k\<close>.
\<close>

fun updateTasks ::
  "(nat \<Rightarrow> env) \<Rightarrow> TaskList list \<Rightarrow> Label list \<Rightarrow> Task \<Rightarrow> nat \<Rightarrow> (addr \<Rightarrow> string list)
     \<Rightarrow> Task list \<Rightarrow> Task list \<times> (addr \<Rightarrow> string list)" where
  "updateTasks es taskLists labels updatedTask k h [] = ([], h)"
| "updateTasks es taskLists labels updatedTask k h (t # ts) =
     (if task_id t = task_id updatedTask then
        (let (t', h') = updateTask (es k) taskLists labels updatedTask h t;
             (ts', h'') = updateTasks es taskLists labels updatedTask (Suc k) h' ts
         in (t' # ts', h''))
      else
        (let (ts', h') = updateTasks es taskLists labels updatedTask (Suc k) h ts
         in (t # ts', h')))"

definition handleUpdateTask ::
  "(nat \<Rightarrow> env) \<Rightarrow> TaskList list \<Rightarrow> Label list \<Rightarrow> Task \<Rightarrow> store \<Rightarrow> store" where
  "handleUpdateTask es taskLists labels updatedTask s =
     (let (ts, h) = updateTasks es taskLists labels updatedTask 0 (arrays s) (tasks s)
      in \<lparr>tasks = ts, arrays = h\<rparr>)"

section \<open>The display list (\<open>filteredTasks\<close>, App.tsx 460--553)\<close>

text \<open>
  \<open>isToday\<close> and \<open>isNext7Days\<close> (App.tsx 27--44); \<open>today\<close> is the reading of \<open>new Date()\<close>
  and \<open>z\<close> the time zone of the host.
\<close>

definition isToday :: "timezone \<Rightarrow> int \<Rightarrow> int option \<Rightarrow> bool" where
  "isToday z today dateString =
     (case dateString of
        None \<Rightarrow> False
      | Some d \<Rightarrow>
          getDate z (Some d) = getDate z (Some today)
            \<and> getMonth z (Some d) = getMonth z (Some today)
            \<and> getFullYear z (Some d) = getFullYear z (Some today))"

definition isNext7Days :: "timezone \<Rightarrow> int \<Rightarrow> int option \<Rightarrow> bool" where
  "isNext7Days z today dateString =
     (case dateString of
        None \<Rightarrow> False
      | Some d \<Rightarrow>
          (case setDate z (Some today) (plus_number (getDate z (Some today)) 7) of
             None \<Rightarrow> False
           | Some nextWeek \<Rightarrow> d \<ge> today \<and> d \<le> nextWeek))"

text \<open>\<open>String.prototype.includes\<close>.\<close>

fun str_includes :: "string \<Rightarrow> string \<Rightarrow> bool" where
  "str_includes [] q = (q = [])"
| "str_includes (c # cs) q = (take (length q) (c # cs) = q \<or> str_includes cs q)"

datatype SortOption = Sort_smart | Sort_dueDate | Sort_priority | Sort_added | Sort_alphabetical

definition prioOrder :: "Priority \<Rightarrow> int" where
  "prioOrder p = (case p of High \<Rightarrow> 3 | Medium \<Rightarrow> 2 | Low \<Rightarrow> 1 | Priority_None \<Rightarrow> 0)"

text \<open>
  The comparator handed to \<open>sort\<close>; \<open>lc\<close> is the host's \<open>localeCompare\<close>.
\<close>

definition dueDateCompare :: "Task \<Rightarrow> Task \<Rightarrow> int" where
  "dueDateCompare a b =
     (case (dueDate a, dueDate b) of
        (Some x, Some y) \<Rightarrow> x - y
      | (Some x, None) \<Rightarrow> - 1
      | (None, Some y) \<Rightarrow> 1
      | (None, None) \<Rightarrow> 0)"

definition compareTasks :: "(string \<Rightarrow> string \<Rightarrow> int) \<Rightarrow> SortOption \<Rightarrow> Task \<Rightarrow> Task \<Rightarrow> int" where
  "compareTasks lc sortBy a b =
     (if completed a \<noteq> completed b then (if completed a then 1 else - 1)
      else
        (case sortBy of
           Sort_dueDate \<Rightarrow> dueDateCompare a b
         | Sort_priority \<Rightarrow>
             (if prioOrder (priority b) \<noteq> prioOrder (priority a)
              then prioOrder (priority b) - prioOrder (priority a) else 0)
         | Sort_added \<Rightarrow> createdAt b - createdAt a
         | Sort_alphabetical \<Rightarrow> lc (title a) (title b)
         | Sort_smart \<Rightarrow>
             (if prioOrder (priority b) \<noteq> prioOrder (priority a)
              then prioOrder (priority b) - prioOrder (priority a)
              else dueDateCompare a b)))"

text \<open>
  \<open>Array.prototype.sort\<close> with a comparator is a stable sort (ECMA-262, 23.1.3.30): with a
  consistent comparator the result is the one stable arrangement in which no element
  compares greater than a later one. Insertion from the right computes it.
\<close>

fun sort_insert :: "('a \<Rightarrow> 'a \<Rightarrow> int) \<Rightarrow> 'a \<Rightarrow> 'a list \<Rightarrow> 'a list" where
  "sort_insert cmp x [] = [x]"
| "sort_insert cmp x (y # ys) = (if cmp x y \<le> 0 then x # y # ys else y # sort_insert cmp x ys)"

definition js_sort :: "('a \<Rightarrow> 'a \<Rightarrow> int) \<Rightarrow> 'a list \<Rightarrow> 'a list" where
  "js_sort cmp xs = foldr (sort_insert cmp) xs []"

text \<open>
  The memo \<open>filteredTasks\<close>. \<open>e\<close> is what it reads from the host, \<open>s\<close> the task collection
  with its label arrays, \<open>labels\<close> the state \<open>labels\<close>. The clock is read once in one
  evaluation of the memo: \<open>new Date()\<close> is \<open>now e 0\<close> throughout.
\<close>

definition viewFilter :: "env \<Rightarrow> store \<Rightarrow> Label list \<Rightarrow> string \<Rightarrow> string \<Rightarrow> Task list" where
  "viewFilter e s labels activeView searchQuery =
     (let filtered = tasks s in
      if activeView = ''search'' then
        (if searchQuery \<noteq> [] then
           (let lowerQ = toLowerCase e searchQuery in
            filter (\<lambda>t. str_includes (toLowerCase e (title t)) lowerQ
                      \<or> (case description t of
                            None \<Rightarrow> False
                          | Some d \<Rightarrow> str_includes (toLowerCase e d) lowerQ))
                   filtered)
         else filtered)
      else
        (let isLabelView = list_ex (\<lambda>l. lb_id l = activeView) labels in
         if isLabelView then
           filter (\<lambda>t. activeView \<in> set (arrays s (labelIds t)) \<and> \<not> completed t) filtered
         else if activeView = ''inbox'' then
           filter (\<lambda>t. listId t = ''inbox'' \<and> \<not> completed t) filtered
         else if activeView = ''today'' then
           filter (\<lambda>t. isToday (timeZone e) (now e 0) (dueDate t) \<and> \<not> completed t) filtered
         else if activeView = ''next7'' then
           filter (\<lambda>t. isNext7Days (timeZone e) (now e 0) (dueDate t) \<and> \<not> completed t) filtered
         else if activeView = ''upcoming'' then
           filter (\<lambda>t. (case dueDate t of None \<Rightarrow> False | Some d \<Rightarrow> d > now e 0)
                        \<and> \<not> completed t)
                  filtered
         else if activeView = ''all'' then filtered
         else filter (\<lambda>t. listId t = activeView \<and> \<not> completed t) filtered))"

definition filteredTasks ::
  "env \<Rightarrow> store \<Rightarrow> Label list \<Rightarrow> string \<Rightarrow> string \<Rightarrow> SortOption \<Rightarrow> Task list" where
  "filteredTasks e s labels activeView searchQuery sortBy =
     (if activeView = ''activity'' then []
      else js_sort (compareTasks (localeCompare e) sortBy)
             (viewFilter e s labels activeView searchQuery))"

section \<open>Example data\<close>

text \<open>
  The time zone of New York under the rules of the year 2024: five hours behind UTC, and
  four hours from 2024-03-10T07:00:00Z (when the local clock goes from 02:00 to 03:00) to
  2024-11-03T06:00:00Z (when it goes from 02:00 back to 01:00). A local time that the clock
  skips is read with the offset before the change, and of the two instants of a local time
  that the clock shows twice the earlier one is taken (ECMA-262, 21.4.1.26).
\<close>

lemma new_york_2024_ok:
  "timezone_ok
     (\<lambda>t. if 1710054000000 \<le> t \<and> t < 1730613600000 then - 14400000 else - 18000000,
      \<lambda>l. if 1710039600000 \<le> l \<and> l < 1730599200000 then - 14400000 else - 18000000)"
proof -
  define f :: "int \<Rightarrow> int" where
    "f = (\<lambda>t. if 1710054000000 \<le> t \<and> t < 1730613600000 then - 14400000 else - 18000000)"
  define g :: "int \<Rightarrow> int" where
    "g = (\<lambda>l. if 1710039600000 \<le> l \<and> l < 1730599200000 then - 14400000 else - 18000000)"
  have close: "\<bar>f t - g l\<bar> < msPerDay" for t l
    by (simp add: f_def g_def msPerDay_def)
  have day: "Day (l - g l + f (l - g l)) = Day l" for l
  proof -
    consider (before) "l < 1710036000000"
      | (skipped) "1710036000000 \<le> l" "l < 1710039600000"
      | (summer) "1710039600000 \<le> l" "l < 1730599200000"
      | (after) "1730599200000 \<le> l"
      by linarith
    then show ?thesis
    proof cases
      case before
      then have "l - g l + f (l - g l) = l"
        by (simp add: f_def g_def)
      then show ?thesis
        by simp
    next
      case skipped
      then have e: "l - g l + f (l - g l) = l + 3600000"
        by (simp add: f_def g_def)
      have "Day l = 19792"
        using skipped by (intro Day_eqI) (simp_all add: msPerDay_def)
      moreover have "Day (l + 3600000) = 19792"
        using skipped by (intro Day_eqI) (simp_all add: msPerDay_def)
      ultimately show ?thesis
        by (simp add: e)
    next
      case summer
      then have "l - g l + f (l - g l) = l"
        by (simp add: f_def g_def)
      then show ?thesis
        by simp
    next
      case after
      then have "l - g l + f (l - g l) = l"
        by (simp add: f_def g_def)
      then show ?thesis
        by simp
    qed
  qed
  show ?thesis
    unfolding f_def [symmetric] g_def [symmetric] using close day by (simp add: timezone_ok_def)
qed

lift_definition new_york_2024 :: timezone is
  "(\<lambda>t. if 1710054000000 \<le> t \<and> t < 1730613600000 then - 14400000 else - 18000000,
    \<lambda>l. if 1710039600000 \<le> l \<and> l < 1730599200000 then - 14400000 else - 18000000)"
  by (rule new_york_2024_ok)

lemma LocalTime_new_york_2024:
  "LocalTime new_york_2024 t =
     t + (if 1710054000000 \<le> t \<and> t < 1730613600000 then - 14400000 else - 18000000)"
  by (simp add: LocalTime_def new_york_2024.rep_eq)

lemma UTC_new_york_2024:
  "UTC new_york_2024 l =
     l - (if 1710039600000 \<le> l \<and> l < 1730599200000 then - 14400000 else - 18000000)"
  by (simp add: UTC_def new_york_2024.rep_eq)

text \<open>\<open>toLowerCase\<close> on the letters A to Z, and the comparison of strings by their code units.\<close>

definition ascii_toLowerCase :: "string \<Rightarrow> string" where
  "ascii_toLowerCase s =
     map (\<lambda>c. if CHR ''A'' \<le> c \<and> c \<le> CHR ''Z'' then char_of (of_char c + (32::nat)) else c) s"

definition codeunit_compare :: "string \<Rightarrow> string \<Rightarrow> int" where
  "codeunit_compare a b = (if a < b then - 1 else if a = b then 0 else 1)"

definition example_env :: env where
  "example_env =
     \<lparr>randomUUID = (\<lambda>k. replicate (Suc k) CHR ''u''),
      now = (\<lambda>k. 1717200000000 + int k),
      timeZone = new_york_2024,
      toLocaleDateString = (\<lambda>t. ''a date''),
      localeCompare = codeunit_compare,
      toLowerCase = ascii_toLowerCase\<rparr>"

definition example_log :: TaskLog where
  "example_log = \<lparr>log_id = ''l0'', log_timestamp = 1700000000000, log_message = ''Task created''\<rparr>"

text \<open>A weekly task due on 2024-01-01, with one reminder, one attachment and one log entry.\<close>

definition example_task :: Task where
  "example_task =
     \<lparr>task_id = ''t1'', listId = ''inbox'', title = ''Water the plants'', description = None,
      completed = False, dueDate = Some (Date_UTC 2024 0 1), deadline = None,
      reminders = [\<lparr>rm_id = ''r1'', rm_time = Date_UTC 2023 11 31, rm_fired = False\<rparr>],
      estimate = None, actualTime = None, priority = Medium, subtasks = [],
      recurrence = Weekly, recurrenceCustom = None, labelIds = 0,
      attachments =
        [\<lparr>at_id = ''a1'', at_name = ''plan'', at_type = Link, at_url = ''https://example.org'',
          at_mimeType = None, at_size = None\<rparr>],
      color = None, logs = [example_log], createdAt = 1700000000000\<rparr>"

definition plain_task :: Task where
  "plain_task = example_task\<lparr>task_id := ''t2'', title := ''Buy milk'', recurrence := Recurrence_None,
     priority := High, dueDate := None, labelIds := 1\<rparr>"

definition example_store :: store where
  "example_store =
     \<lparr>tasks = [plain_task, example_task],
      arrays = (\<lambda>a. if a = 0 then [''urgent'', ''design''] else [])\<rparr>"

lemma Date_UTC_2024_0_1: "Date_UTC 2024 0 1 = 1704067200000"
  by (simp add: Date_UTC_def MakeDate_def MakeDay_def DayFromYear_def DaysInYear_def
      DaysBeforeMonth_def msPerDay_def)

lemma Date_UTC_2024_0_5: "Date_UTC 2024 0 5 = 1704412800000"
  by (simp add: Date_UTC_def MakeDate_def MakeDay_def DayFromYear_def DaysInYear_def
      DaysBeforeMonth_def msPerDay_def)

lemma Date_UTC_2024_0_8: "Date_UTC 2024 0 8 = 1704672000000"
  by (simp add: Date_UTC_def MakeDate_def MakeDay_def DayFromYear_def DaysInYear_def
      DaysBeforeMonth_def msPerDay_def)

lemma Date_UTC_examples:
  "Date_UTC 2023 11 30 = 1703894400000" "Date_UTC 2023 11 31 = 1703980800000"
  "Date_UTC 2024 0 2 = 1704153600000" "Date_UTC 2024 0 6 = 1704499200000"
  "Date_UTC 2024 0 9 = 1704758400000"
  by (simp_all add: Date_UTC_def MakeDate_def MakeDay_def DayFromYear_def DaysInYear_def
      DaysBeforeMonth_def msPerDay_def)

text \<open>
  In New York 2024-01-01T00:00:00Z is the evening of 2023-12-31; a week later in local time
  is 2024-01-08T00:00:00Z.
\<close>

lemma weekly_from_2024_01_01:
  "calculateNextDueDate new_york_2024 (Some (Date_UTC 2024 0 1)) Weekly c
     = Some (Some (Date_UTC 2024 0 8))"
  by (simp add: calculateNextDueDate_def Let_def setDate_plus Date_UTC_2024_0_1 Date_UTC_2024_0_8
      TimeClip_def msPerDay_def LocalTime_new_york_2024 UTC_new_york_2024)

section \<open>Lookups by id\<close>

lemma findIndex_None: "findIndex p xs = None \<longleftrightarrow> (\<forall>x \<in> set xs. \<not> p x)"
  by (induction xs) auto

lemma findIndex_Some:
  "findIndex p xs = Some i \<Longrightarrow> i < length xs \<and> p (xs ! i) \<and> (\<forall>j < i. \<not> p (xs ! j))"
proof (induction xs arbitrary: i)
  case Nil
  then show ?case by simp
next
  case (Cons x xs)
  show ?case
  proof (cases "p x")
    case True
    with Cons.prems show ?thesis by simp
  next
    case False
    with Cons.prems obtain k where k: "findIndex p xs = Some k" "i = Suc k"
      by auto
    from Cons.IH [OF k(1)] False k(2) show ?thesis
      by (auto simp add: nth_Cons split: nat.splits)
  qed
qed

lemma findIndex_update:
  "findIndex p xs = Some i \<Longrightarrow> p y \<Longrightarrow> findIndex p (xs[i := y]) = Some i"
proof (induction xs arbitrary: i)
  case Nil
  then show ?case by simp
next
  case (Cons x xs)
  show ?case
  proof (cases "p x")
    case True
    with Cons.prems show ?thesis by simp
  next
    case False
    with Cons.prems obtain k where k: "findIndex p xs = Some k" "i = Suc k"
      by auto
    from Cons.IH [OF k(1) Cons.prems(2)] False k(2) show ?thesis
      by simp
  qed
qed

lemma findIndex_first:
  assumes "k < length xs" and "p (xs ! k)" and "\<forall>j < k. \<not> p (xs ! j)"
  shows "findIndex p xs = Some k"
proof (cases "findIndex p xs")
  case None
  with assms(1,2) show ?thesis
    by (auto simp add: findIndex_None)
next
  case (Some m)
  from findIndex_Some [OF Some] have m: "p (xs ! m)" "\<forall>j < m. \<not> p (xs ! j)"
    by simp_all
  have "m = k"
  proof (rule ccontr)
    assume "m \<noteq> k"
    then consider "m < k" | "k < m"
      by arith
    then show False
      using m assms(2,3) by cases auto
  qed
  with Some show ?thesis
    by simp
qed

lemma updateTasks_absent:
  "\<forall>t \<in> set ts. task_id t \<noteq> task_id u \<Longrightarrow> updateTasks es taskLists labels u k h ts = (ts, h)"
  by (induction ts arbitrary: k) simp_all

lemma filter_absent: "\<forall>t \<in> set ts. task_id t \<noteq> i \<Longrightarrow> filter (\<lambda>t. task_id t \<noteq> i) ts = ts"
  by (induction ts) simp_all

text \<open>One run of \<open>handleToggleTask\<close> on a task without recurrence.\<close>

lemma toggle_non_recurring:
  assumes "findIndex (\<lambda>t. task_id t = i) prev = Some k"
    and "recurrence (prev ! k) = Recurrence_None"
  shows "handleToggleTask e i prev =
    Inr (prev[k := (prev ! k)
      \<lparr>completed := \<not> completed (prev ! k),
       logs := logs (prev ! k) @
         [\<lparr>log_id = randomUUID e 0, log_timestamp = now e 0,
           log_message =
             (if \<not> completed (prev ! k) then ''Completed task'' else ''Uncompleted task'')\<rparr>]\<rparr>])"
  using assms by (simp add: handleToggleTask_def Let_def)

section \<open>What \<open>handleUpdateTask\<close> computes\<close>

text \<open>
  The task that replaces a stored task \<open>t\<close> with the id of the snapshot \<open>u\<close>, in terms of
  the label arrays \<open>h0\<close> as they were before the update.
\<close>

definition mergedTask ::
  "env \<Rightarrow> TaskList list \<Rightarrow> Label list \<Rightarrow> (addr \<Rightarrow> string list) \<Rightarrow> Task \<Rightarrow> Task \<Rightarrow> Task" where
  "mergedTask e taskLists labels h0 u t =
     u\<lparr>logs := logs t @ meaningfulLogsFromModal t u
         @ newLogs e (diffMessages e taskLists labels
             (sort (h0 (labelIds t)) \<noteq> sort (h0 (labelIds u)))
             (sort (h0 (labelIds t))) (sort (h0 (labelIds u))) t u)\<rparr>"

text \<open>The addresses of the label arrays that the update sorts in place.\<close>

definition touched :: "Task \<Rightarrow> Task list \<Rightarrow> addr set" where
  "touched u ts =
     (if \<exists>t \<in> set ts. task_id t = task_id u
      then insert (labelIds u) (labelIds ` {t \<in> set ts. task_id t = task_id u})
      else {})"

lemma sort_twice: "sort (sort xs) = sort xs" for xs :: "string list"
  by (simp add: sorted_sort_id)

lemma updateTask_eq:
  assumes "\<forall>a. h a = h0 a \<or> h a = sort (h0 a)"
  shows "updateTask e taskLists labels u h t =
    (mergedTask e taskLists labels h0 u t,
     h(labelIds t := sort (h0 (labelIds t)), labelIds u := sort (h0 (labelIds u))))"
proof -
  have s: "sort (h a) = sort (h0 a)" for a
    using assms [rule_format, of a] by (auto simp add: sort_twice)
  define h1 where "h1 = h(labelIds t := sort (h (labelIds t)))"
  define h2 where "h2 = h1(labelIds u := sort (h1 (labelIds u)))"
  have 1: "h1 (labelIds t) = sort (h0 (labelIds t))"
    by (simp add: h1_def s)
  have 2: "sort (h1 (labelIds u)) = sort (h0 (labelIds u))"
    by (simp add: h1_def s sort_twice)
  have 3: "h2 (labelIds u) = sort (h0 (labelIds u))"
    by (simp add: h2_def 2)
  have 4: "h2 (labelIds t) = sort (h0 (labelIds t))"
    by (auto simp add: h2_def 1 2)
  have 5: "h2 = h(labelIds t := sort (h0 (labelIds t)), labelIds u := sort (h0 (labelIds u)))"
    by (auto simp add: h2_def h1_def s 2 sort_twice)
  have "updateTask e taskLists labels u h t =
      (u\<lparr>logs := logs t @ meaningfulLogsFromModal t u
          @ newLogs e (diffMessages e taskLists labels (h1 (labelIds t) \<noteq> h2 (labelIds u))
              (h2 (labelIds t)) (h2 (labelIds u)) t u)\<rparr>, h2)"
    by (simp add: updateTask_def Let_def h1_def h2_def)
  then show ?thesis
    unfolding 1 3 4 by (simp add: mergedTask_def 5)
qed

lemma updateTasks_eq:
  assumes "\<forall>a. h a = h0 a \<or> h a = sort (h0 a)"
  shows "updateTasks es taskLists labels u k h ts =
    (map (\<lambda>(j, t). if task_id t = task_id u then mergedTask (es j) taskLists labels h0 u t else t)
       (enumerate k ts),
     (\<lambda>a. if a \<in> touched u ts then sort (h0 a) else h a))"
  using assms
proof (induction ts arbitrary: k h)
  case Nil
  show ?case
    by (simp add: touched_def)
next
  case (Cons t ts)
  show ?case
  proof (cases "task_id t = task_id u")
    case True
    define h' where "h' = h(labelIds t := sort (h0 (labelIds t)), labelIds u := sort (h0 (labelIds u)))"
    have inv: "\<forall>a. h' a = h0 a \<or> h' a = sort (h0 a)"
      using Cons.prems by (simp add: h'_def)
    have heap: "(\<lambda>a. if a \<in> touched u ts then sort (h0 a) else h' a)
        = (\<lambda>a. if a \<in> touched u (t # ts) then sort (h0 a) else h a)"
      using True by (auto simp add: fun_eq_iff touched_def h'_def)
    show ?thesis
      using True
      by (simp add: updateTask_eq [OF Cons.prems] h'_def [symmetric] Cons.IH [OF inv] heap)
  next
    case False
    have t: "touched u (t # ts) = touched u ts"
      using False by (auto simp add: touched_def)
    show ?thesis
      using False by (simp add: Cons.IH [OF Cons.prems] t)
  qed
qed

lemma handleUpdateTask_eq:
  "handleUpdateTask es taskLists labels u s =
     \<lparr>tasks = map (\<lambda>(j, t). if task_id t = task_id u
                            then mergedTask (es j) taskLists labels (arrays s) u t else t)
                (enumerate 0 (tasks s)),
      arrays = (\<lambda>a. if a \<in> touched u (tasks s) then sort (arrays s a) else arrays s a)\<rparr>"
proof -
  have "\<forall>a. arrays s a = arrays s a \<or> arrays s a = sort (arrays s a)"
    by simp
  from updateTasks_eq [OF this] show ?thesis
    by (simp add: handleUpdateTask_def)
qed

lemma handleUpdateTask_nth:
  assumes "k < length (tasks s)"
  shows "tasks (handleUpdateTask es taskLists labels u s) ! k =
    (if task_id (tasks s ! k) = task_id u
     then mergedTask (es k) taskLists labels (arrays s) u (tasks s ! k) else tasks s ! k)"
  using assms by (simp add: handleUpdateTask_eq nth_enumerate_eq)

lemma handleUpdateTask_length:
  "length (tasks (handleUpdateTask es taskLists labels u s)) = length (tasks s)"
  by (simp add: handleUpdateTask_eq)

lemmas message_defs =
  titleMessages_def descriptionMessages_def dueDateMessages_def deadlineMessages_def
  priorityMessages_def listMessages_def estimateMessages_def actualTimeMessages_def
  labelMessages_def attachmentMessages_def subtasksMessages_def

section \<open>Completing a recurring task\<close>

text \<open>\<open>task.dueDate || new Date().toISOString()\<close>, the anchor handed to the calculator.\<close>

definition anchor :: "env \<Rightarrow> Task \<Rightarrow> int" where
  "anchor e task = (case dueDate task of Some d \<Rightarrow> d | None \<Rightarrow> now e 1)"

text \<open>
  What \<open>handleToggleTask\<close> has done when it returns a collection \<open>s\<close>. Let \<open>task\<close> be the
  task found under the id \<open>i\<close> (the first with that id, at index \<open>k\<close>).
  \<^item> If \<open>task\<close> was not completed and has a recurrence, \<open>s\<close> is the collection with \<open>task\<close>
    marked completed in its place and exactly one new task in front of it. The calculator,
    anchored on the due date of \<open>task\<close> or on the current time when there is none, has
    returned a valid date \<open>d\<close>, and the new task is due on \<open>d\<close>. It has the id drawn from
    \<open>crypto.randomUUID()\<close>, is not completed, has no reminders, no attachments and exactly
    one log entry, is created at the current time, and equals \<open>task\<close> on every other field.
  \<^item> If \<open>task\<close> was completed, or has no recurrence, \<open>s\<close> has the length of the collection:
    no task is added.
\<close>

lemma toggle_spawns_next_occurrence:
  assumes "k < length prev" and "task_id (prev ! k) = i"
    and "\<forall>j < k. task_id (prev ! j) \<noteq> i"
    and "handleToggleTask e i prev = Inr s"
  shows "(\<not> completed (prev ! k) \<and> recurrence (prev ! k) \<noteq> Recurrence_None
      \<longrightarrow> (\<exists>spawned finished d. s = spawned # prev[k := finished]
            \<and> calculateNextDueDate (timeZone e) (Some (anchor e (prev ! k)))
                (recurrence (prev ! k)) (recurrenceCustom (prev ! k)) = Some (Some d)
            \<and> task_id finished = i \<and> completed finished
            \<and> task_id spawned = randomUUID e 1
            \<and> \<not> completed spawned
            \<and> dueDate spawned = Some d
            \<and> reminders spawned = []
            \<and> attachments spawned = []
            \<and> length (logs spawned) = 1
            \<and> createdAt spawned = now e 3
            \<and> spawned\<lparr>task_id := i, completed := False, dueDate := dueDate (prev ! k),
                  reminders := reminders (prev ! k), attachments := attachments (prev ! k),
                  logs := logs (prev ! k), createdAt := createdAt (prev ! k)\<rparr> = prev ! k))
    \<and> (completed (prev ! k) \<or> recurrence (prev ! k) = Recurrence_None
      \<longrightarrow> length s = length prev)"
proof -
  have f: "findIndex (\<lambda>t. task_id t = i) prev = Some k"
    using assms(1,2,3) by (intro findIndex_first) simp_all
  obtain x where x: "calculateNextDueDate (timeZone e) (Some (anchor e (prev ! k)))
      (recurrence (prev ! k)) (recurrenceCustom (prev ! k)) = Some x"
    by (simp add: calculateNextDueDate_def Let_def)
  show ?thesis
  proof (intro conjI impI)
    assume a: "\<not> completed (prev ! k) \<and> recurrence (prev ! k) \<noteq> Recurrence_None"
    define finished where "finished = (prev ! k)
      \<lparr>completed := \<not> completed (prev ! k),
       logs := logs (prev ! k) @
         [\<lparr>log_id = randomUUID e 0, log_timestamp = now e 0, log_message = ''Completed task''\<rparr>]\<rparr>"
    have fin: "completed finished"
      using a by (simp add: finished_def)
    have r: "handleToggleTask e i prev =
        (case toISOString x of
           Inl err \<Rightarrow> Inl err
         | Inr isoString \<Rightarrow>
             Inr ((prev ! k)
               \<lparr>task_id := randomUUID e 1, completed := False, dueDate := Some isoString,
                reminders := [], attachments := [],
                logs :=
                  [\<lparr>log_id = randomUUID e 2, log_timestamp = now e 2,
                    log_message =
                      ''Recurring task created from '' @ [CHR 0x27] @ title (prev ! k)
                        @ [CHR 0x27]\<rparr>],
                createdAt := now e 3\<rparr> # prev[k := finished]))"
      using a f x unfolding finished_def
      by (simp add: handleToggleTask_def Let_def anchor_def)
    from assms(4) obtain d where d: "x = Some d"
      unfolding r by (cases x) (simp_all add: toISOString_def)
    define spawned where "spawned = (prev ! k)
      \<lparr>task_id := randomUUID e 1, completed := False, dueDate := Some d, reminders := [],
       attachments := [],
       logs :=
         [\<lparr>log_id = randomUUID e 2, log_timestamp = now e 2,
           log_message =
             ''Recurring task created from '' @ [CHR 0x27] @ title (prev ! k) @ [CHR 0x27]\<rparr>],
       createdAt := now e 3\<rparr>"
    have s: "s = spawned # prev[k := finished]"
      using assms(4) unfolding r d by (simp add: toISOString_def spawned_def)
    have orig: "spawned\<lparr>task_id := i, completed := False, dueDate := dueDate (prev ! k),
        reminders := reminders (prev ! k), attachments := attachments (prev ! k),
        logs := logs (prev ! k), createdAt := createdAt (prev ! k)\<rparr> = prev ! k"
      using a assms(2) by (simp add: spawned_def)
    have "s = spawned # prev[k := finished]
        \<and> calculateNextDueDate (timeZone e) (Some (anchor e (prev ! k)))
            (recurrence (prev ! k)) (recurrenceCustom (prev ! k)) = Some (Some d)
        \<and> task_id finished = i \<and> completed finished
        \<and> task_id spawned = randomUUID e 1
        \<and> \<not> completed spawned
        \<and> dueDate spawned = Some d
        \<and> reminders spawned = []
        \<and> attachments spawned = []
        \<and> length (logs spawned) = 1
        \<and> createdAt spawned = now e 3
        \<and> spawned\<lparr>task_id := i, completed := False, dueDate := dueDate (prev ! k),
              reminders := reminders (prev ! k), attachments := attachments (prev ! k),
              logs := logs (prev ! k), createdAt := createdAt (prev ! k)\<rparr> = prev ! k"
      using s x d orig fin assms(2) by (simp add: spawned_def finished_def)
    then show "\<exists>spawned finished d. s = spawned # prev[k := finished]
        \<and> calculateNextDueDate (timeZone e) (Some (anchor e (prev ! k)))
            (recurrence (prev ! k)) (recurrenceCustom (prev ! k)) = Some (Some d)
        \<and> task_id finished = i \<and> completed finished
        \<and> task_id spawned = randomUUID e 1
        \<and> \<not> completed spawned
        \<and> dueDate spawned = Some d
        \<and> reminders spawned = []
        \<and> attachments spawned = []
        \<and> length (logs spawned) = 1
        \<and> createdAt spawned = now e 3
        \<and> spawned\<lparr>task_id := i, completed := False, dueDate := dueDate (prev ! k),
              reminders := reminders (prev ! k), attachments := attachments (prev ! k),
              logs := logs (prev ! k), createdAt := createdAt (prev ! k)\<rparr> = prev ! k"
      by blast
  next
    assume "completed (prev ! k) \<or> recurrence (prev ! k) = Recurrence_None"
    then have "\<exists>t. handleToggleTask e i prev = Inr (prev[k := t])"
      using f by (auto simp add: handleToggleTask_def Let_def)
    with assms(4) show "length s = length prev"
      by auto
  qed
qed

text \<open>
  The weekly task due on 2024-01-01 is the second task of the example store. Completing it
  puts one new task in front, due on 2024-01-08, not completed and without reminders.
\<close>

lemma toggle_weekly_example:
  "\<exists>spawned finished. handleToggleTask example_env ''t1'' (tasks example_store)
        = Inr (spawned # (tasks example_store)[1 := finished])
    \<and> completed finished
    \<and> \<not> completed spawned
    \<and> dueDate spawned = Some (Date_UTC 2024 0 8)
    \<and> reminders spawned = []
    \<and> attachments spawned = []
    \<and> length (logs spawned) = 1
    \<and> title spawned = ''Water the plants''"
  by (simp add: handleToggleTask_def example_store_def plain_task_def example_task_def
      example_env_def Let_def weekly_from_2024_01_01 toISOString_def)

text \<open>
  A task that repeats every 1000000000 days, due on 2024-01-01 (in the dialog: recurrence
  Custom, every 1000000000 days).
\<close>

definition far_task :: Task where
  "far_task = example_task
     \<lparr>task_id := ''t3'', recurrence := Custom,
      recurrenceCustom := Some \<lparr>amount = 1000000000, unit = Days\<rparr>\<rparr>"

text \<open>
  C1. The task \<open>far_task\<close> is not completed and has a recurrence, so completing it takes
  its \<open>completed\<close> flag from false to true, and the claim asks for exactly one new task in
  front of the collection. The calculator leaves the range of time values and returns an
  Invalid Date. An Invalid Date is an object, so it passes the guard \<open>if (nextDate)\<close>
  (App.tsx 245), and \<open>nextDate.toISOString()\<close> raises a RangeError: the updater returns no
  collection, no task is inserted, and the task is not marked completed.
\<close>

theorem toggle_far_recurrence_raises:
  "\<not> completed far_task \<and> recurrence far_task \<noteq> Recurrence_None
    \<and> calculateNextDueDate (timeZone example_env) (Some (anchor example_env far_task))
         (recurrence far_task) (recurrenceCustom far_task) = Some None
    \<and> handleToggleTask example_env ''t3'' [far_task] = Inl RangeError"
  by (simp add: far_task_def example_task_def example_env_def anchor_def handleToggleTask_def
      Let_def calculateNextDueDate_def setDate_plus Date_UTC_2024_0_1 TimeClip_def msPerDay_def
      LocalTime_new_york_2024 UTC_new_york_2024 toISOString_def)

section \<open>The next due date lies after the anchor\<close>






section \<open>The order of the log entries after an update\<close>

text \<open>
  C3. Let the stored task at index \<open>k\<close> have the id of the snapshot \<open>u\<close>. After
  \<open>handleUpdateTask\<close> the log list of the task at \<open>k\<close> is: the logs of the stored task; then
  the logs of \<open>u\<close> whose id is not the id of a log of the stored task and whose message is
  not \<open>Updated task details\<close>, in their order; then the entries synthesized from the
  differences between the stored task and \<open>u\<close>, in the order of \<open>diffMessages\<close>.
\<close>

theorem update_log_order:
  assumes "k < length (tasks s)" and "task_id (tasks s ! k) = task_id u"
  shows "logs (tasks (handleUpdateTask es taskLists labels u s) ! k) =
    logs (tasks s ! k)
    @ filter (\<lambda>l. log_id l \<notin> log_id ` set (logs (tasks s ! k))
               \<and> log_message l \<noteq> ''Updated task details'') (logs u)
    @ newLogs (es k)
        (diffMessages (es k) taskLists labels
           (sort (arrays s (labelIds (tasks s ! k))) \<noteq> sort (arrays s (labelIds u)))
           (sort (arrays s (labelIds (tasks s ! k)))) (sort (arrays s (labelIds u)))
           (tasks s ! k) u)"
  using assms
  by (simp add: handleUpdateTask_nth mergedTask_def meaningfulLogsFromModal_def)

text \<open>
  The snapshot renames the weekly task of the example store to \<open>B\<close> and carries the
  placeholder entry of the dialog. The stored log is followed by one new entry, the
  rename; the placeholder is gone.
\<close>

definition renamed_task :: Task where
  "renamed_task = example_task
     \<lparr>title := ''B'',
      logs := logs example_task @
        [\<lparr>log_id = ''l1'', log_timestamp = 1717100000000,
          log_message = ''Updated task details''\<rparr>]\<rparr>"

theorem update_log_order_witness:
  "logs (tasks (handleUpdateTask (\<lambda>k. example_env) [] [] renamed_task example_store) ! 1) =
     [example_log,
      \<lparr>log_id = ''u'', log_timestamp = 1717200000000,
       log_message = ''Renamed to '' @ quoted ''B''\<rparr>]"
proof -
  have h1: "1 < length (tasks example_store)"
    by (simp add: example_store_def)
  have h2: "task_id (tasks example_store ! 1) = task_id renamed_task"
    by (simp add: example_store_def renamed_task_def example_task_def)
  have t: "tasks example_store ! 1 = example_task"
    by (simp add: example_store_def)
  have d: "diffMessages example_env [] []
      (sort (arrays example_store (labelIds example_task))
         \<noteq> sort (arrays example_store (labelIds renamed_task)))
      (sort (arrays example_store (labelIds example_task)))
      (sort (arrays example_store (labelIds renamed_task))) example_task renamed_task
    = [''Renamed to '' @ quoted ''B'']"
    by (simp add: diffMessages_def message_defs renamed_task_def example_task_def Let_def)
  show ?thesis
    unfolding update_log_order [OF h1 h2] t d
    by (simp add: renamed_task_def example_task_def example_log_def newLogs_def example_env_def)
qed

section \<open>Attachments replaced one for one\<close>

lemma attachmentMessages_same_length:
  "length (attachments t) = length (attachments u) \<Longrightarrow> attachmentMessages t u = []"
  by (simp add: attachmentMessages_def)

text \<open>
  A snapshot of the weekly task of the example store in which the attachment \<open>a1\<close> is
  replaced by another one, \<open>a2\<close>, and nothing else is changed.
\<close>

definition swapped_task :: Task where
  "swapped_task = example_task
     \<lparr>attachments :=
        [\<lparr>at_id = ''a2'', at_name = ''notes'', at_type = Link, at_url = ''https://example.net'',
          at_mimeType = None, at_size = None\<rparr>]\<rparr>"

text \<open>
  C4. The snapshot replaces the one attachment \<open>a1\<close> of the weekly task by another one,
  \<open>a2\<close>, and changes nothing else. One attachment was added and one removed, but the two
  arrays have the same length, so the guard \<open>oldAttachments.length !== newAttachments.length\<close>
  skips the comparison: the task of the store gets the new attachment and no log entry.
\<close>

theorem attachment_swap_not_logged:
  "map at_id (attachments (tasks example_store ! 1)) = [''a1'']
    \<and> map at_id (attachments swapped_task) = [''a2'']
    \<and> attachments (tasks (handleUpdateTask (\<lambda>k. example_env) [] [] swapped_task example_store) ! 1)
        = attachments swapped_task
    \<and> logs (tasks (handleUpdateTask (\<lambda>k. example_env) [] [] swapped_task example_store) ! 1)
        = logs (tasks example_store ! 1)"
proof -
  have t: "tasks example_store ! 1 = example_task"
    by (simp add: example_store_def)
  have d: "diffMessages example_env [] []
      (sort (arrays example_store (labelIds example_task))
         \<noteq> sort (arrays example_store (labelIds swapped_task)))
      (sort (arrays example_store (labelIds example_task)))
      (sort (arrays example_store (labelIds swapped_task))) example_task swapped_task
    = []"
    by (simp add: diffMessages_def message_defs swapped_task_def example_task_def Let_def)
  have r: "tasks (handleUpdateTask (\<lambda>k. example_env) [] [] swapped_task example_store) ! 1
      = mergedTask example_env [] [] (arrays example_store) swapped_task example_task"
    by (simp add: handleUpdateTask_nth example_store_def swapped_task_def example_task_def)
  show ?thesis
    unfolding r t unfolding mergedTask_def d
    by (simp add: swapped_task_def example_task_def meaningfulLogsFromModal_def newLogs_def)
qed

section \<open>Facts about the sort\<close>

lemma mset_sort_insert: "mset (sort_insert cmp x ys) = add_mset x (mset ys)"
  by (induction ys) simp_all

lemma mset_js_sort: "mset (js_sort cmp xs) = mset xs"
  by (induction xs) (simp_all add: js_sort_def mset_sort_insert)

lemma set_sort_insert: "set (sort_insert cmp x ys) = insert x (set ys)"
  by (induction ys) auto

lemma sorted_sort_insert:
  assumes total: "\<And>a b. cmp a b \<le> 0 \<or> cmp b a \<le> 0"
    and trans: "\<And>a b c. cmp a b \<le> 0 \<Longrightarrow> cmp b c \<le> 0 \<Longrightarrow> cmp a c \<le> 0"
  shows "sorted_wrt (\<lambda>a b. cmp a b \<le> 0) ys \<Longrightarrow> sorted_wrt (\<lambda>a b. cmp a b \<le> 0) (sort_insert cmp x ys)"
proof (induction ys)
  case Nil
  show ?case by simp
next
  case (Cons y ys)
  show ?case
  proof (cases "cmp x y \<le> 0")
    case True
    have "\<forall>z \<in> set ys. cmp x z \<le> 0"
      using Cons.prems True trans by auto
    with True Cons.prems show ?thesis
      by simp
  next
    case False
    with total [of x y] have "cmp y x \<le> 0"
      by simp
    with False Cons show ?thesis
      by (auto simp add: set_sort_insert)
  qed
qed

lemma sorted_js_sort:
  assumes total: "\<And>a b. cmp a b \<le> 0 \<or> cmp b a \<le> 0"
    and trans: "\<And>a b c. cmp a b \<le> 0 \<Longrightarrow> cmp b c \<le> 0 \<Longrightarrow> cmp a c \<le> 0"
  shows "sorted_wrt (\<lambda>a b. cmp a b \<le> 0) (js_sort cmp xs)"
proof (induction xs)
  case Nil
  show ?case by (simp add: js_sort_def)
next
  case (Cons x xs)
  have "js_sort cmp (x # xs) = sort_insert cmp x (js_sort cmp xs)"
    by (simp add: js_sort_def)
  with Cons show ?case
    using sorted_sort_insert [OF total trans] by simp
qed

text \<open>When the comparison of the due dates puts \<open>a\<close> not after \<open>b\<close>.\<close>

definition dueDate_le :: "Task \<Rightarrow> Task \<Rightarrow> bool" where
  "dueDate_le a b =
     (case (dueDate a, dueDate b) of
        (Some x, Some y) \<Rightarrow> x \<le> y
      | (Some x, None) \<Rightarrow> True
      | (None, Some y) \<Rightarrow> False
      | (None, None) \<Rightarrow> True)"

lemma dueDateCompare_le: "dueDateCompare a b \<le> 0 \<longleftrightarrow> dueDate_le a b"
  by (simp add: dueDateCompare_def dueDate_le_def split: option.splits)

lemma dueDate_le_total: "dueDate_le a b \<or> dueDate_le b a"
  by (auto simp add: dueDate_le_def split: option.splits)

lemma dueDate_le_trans: "dueDate_le a b \<Longrightarrow> dueDate_le b c \<Longrightarrow> dueDate_le a c"
  by (auto simp add: dueDate_le_def split: option.splits)

text \<open>
  A comparator is consistent when, read as \<open>a\<close> is not after \<open>b\<close>, it is total and
  transitive. The stable sort then leaves no element before one that it is after.
\<close>

definition consistent :: "('a \<Rightarrow> 'a \<Rightarrow> int) \<Rightarrow> bool" where
  "consistent cmp \<longleftrightarrow>
     (\<forall>a b. cmp a b \<le> 0 \<or> cmp b a \<le> 0)
     \<and> (\<forall>a b c. cmp a b \<le> 0 \<and> cmp b c \<le> 0 \<longrightarrow> cmp a c \<le> 0)"

lemma sorted_js_sort_consistent:
  assumes "consistent cmp"
  shows "sorted_wrt (\<lambda>a b. cmp a b \<le> 0) (js_sort cmp xs)"
proof (rule sorted_js_sort)
  show "cmp a b \<le> 0 \<or> cmp b a \<le> 0" for a b
    using assms unfolding consistent_def by blast
  show "cmp a b \<le> 0 \<Longrightarrow> cmp b c \<le> 0 \<Longrightarrow> cmp a c \<le> 0" for a b c
    using assms unfolding consistent_def by blast
qed

text \<open>When the comparator puts \<open>a\<close> not after \<open>b\<close>, two tasks of one completion status.\<close>

definition key_le :: "(string \<Rightarrow> string \<Rightarrow> int) \<Rightarrow> SortOption \<Rightarrow> Task \<Rightarrow> Task \<Rightarrow> bool" where
  "key_le lc sortBy a b =
     (case sortBy of
        Sort_dueDate \<Rightarrow> dueDate_le a b
      | Sort_priority \<Rightarrow> prioOrder (priority b) \<le> prioOrder (priority a)
      | Sort_added \<Rightarrow> createdAt b \<le> createdAt a
      | Sort_alphabetical \<Rightarrow> lc (title a) (title b) \<le> 0
      | Sort_smart \<Rightarrow>
          prioOrder (priority b) < prioOrder (priority a)
          \<or> (prioOrder (priority b) = prioOrder (priority a) \<and> dueDate_le a b))"

lemma compareTasks_le:
  "compareTasks lc sortBy a b \<le> 0 \<longleftrightarrow>
     (if completed a \<noteq> completed b then completed b else key_le lc sortBy a b)"
  by (cases sortBy) (auto simp add: compareTasks_def key_le_def dueDateCompare_le)

lemma key_le_total:
  assumes "sortBy = Sort_alphabetical \<longrightarrow> consistent lc"
  shows "key_le lc sortBy a b \<or> key_le lc sortBy b a"
proof (cases sortBy)
  case Sort_alphabetical
  with assms have "lc (title a) (title b) \<le> 0 \<or> lc (title b) (title a) \<le> 0"
    unfolding consistent_def by blast
  then show ?thesis
    by (simp add: key_le_def Sort_alphabetical)
next
  case Sort_smart
  then show ?thesis
    using dueDate_le_total [of a b] by (auto simp add: key_le_def)
next
  case Sort_dueDate
  then show ?thesis
    using dueDate_le_total [of a b] by (simp add: key_le_def)
next
  case Sort_priority
  then show ?thesis
    by (auto simp add: key_le_def)
next
  case Sort_added
  then show ?thesis
    by (auto simp add: key_le_def)
qed

lemma key_le_trans:
  assumes "sortBy = Sort_alphabetical \<longrightarrow> consistent lc"
    and "key_le lc sortBy a b" and "key_le lc sortBy b c"
  shows "key_le lc sortBy a c"
proof (cases sortBy)
  case Sort_alphabetical
  with assms(1) have "lc (title a) (title b) \<le> 0 \<and> lc (title b) (title c) \<le> 0
      \<longrightarrow> lc (title a) (title c) \<le> 0"
    unfolding consistent_def by blast
  with assms(2,3) show ?thesis
    by (simp add: key_le_def Sort_alphabetical)
next
  case Sort_smart
  have t: "dueDate_le a b \<Longrightarrow> dueDate_le b c \<Longrightarrow> dueDate_le a c"
    by (rule dueDate_le_trans)
  define pa where "pa = prioOrder (priority a)"
  define pb where "pb = prioOrder (priority b)"
  define pc where "pc = prioOrder (priority c)"
  show ?thesis
    using assms(2,3) t
    unfolding key_le_def Sort_smart pa_def [symmetric] pb_def [symmetric] pc_def [symmetric]
    by auto
next
  case Sort_dueDate
  with assms(2,3) show ?thesis
    using dueDate_le_trans [of a b c] by (simp add: key_le_def)
next
  case Sort_priority
  with assms(2,3) show ?thesis
    by (simp add: key_le_def)
next
  case Sort_added
  with assms(2,3) show ?thesis
    by (simp add: key_le_def)
qed

text \<open>
  Every comparator of the display list is consistent; for the alphabetical sort this
  takes a consistent \<open>localeCompare\<close>.
\<close>

lemma compareTasks_consistent:
  assumes "sortBy = Sort_alphabetical \<longrightarrow> consistent lc"
  shows "consistent (compareTasks lc sortBy)"
proof -
  have tot: "compareTasks lc sortBy a b \<le> 0 \<or> compareTasks lc sortBy b a \<le> 0" for a b
    unfolding compareTasks_le using key_le_total [OF assms, of a b] by auto
  have tr: "compareTasks lc sortBy a c \<le> 0"
    if "compareTasks lc sortBy a b \<le> 0" "compareTasks lc sortBy b c \<le> 0" for a b c
    using that key_le_trans [OF assms, of a b c] unfolding compareTasks_le
    by (cases "completed a"; cases "completed b"; cases "completed c") (auto split: if_splits)
  show ?thesis
    unfolding consistent_def using tot tr by blast
qed

section \<open>The search view without a query\<close>

text \<open>
  C5 (as amended). In the search view with an empty query nothing is filtered out: the
  display list is the whole collection, sorted by the chosen sort. So it holds every task
  of the collection, each as often as the collection does, and no task in it stands
  before one that the comparator of the chosen sort puts before it (for the alphabetical
  sort, provided the \<open>localeCompare\<close> of the host is consistent).
\<close>

theorem search_without_query_shows_all:
  "filteredTasks e s labels ''search'' [] sortBy
      = js_sort (compareTasks (localeCompare e) sortBy) (tasks s)
    \<and> mset (filteredTasks e s labels ''search'' [] sortBy) = mset (tasks s)
    \<and> ((sortBy = Sort_alphabetical \<longrightarrow> consistent (localeCompare e)) \<longrightarrow>
         sorted_wrt (\<lambda>a b. compareTasks (localeCompare e) sortBy a b \<le> 0)
           (filteredTasks e s labels ''search'' [] sortBy))"
proof -
  have eq: "filteredTasks e s labels ''search'' [] sortBy
      = js_sort (compareTasks (localeCompare e) sortBy) (tasks s)"
    by (simp add: filteredTasks_def viewFilter_def)
  have "sorted_wrt (\<lambda>a b. compareTasks (localeCompare e) sortBy a b \<le> 0)
      (js_sort (compareTasks (localeCompare e) sortBy) (tasks s))"
    if "sortBy = Sort_alphabetical \<longrightarrow> consistent (localeCompare e)"
    using that by (intro sorted_js_sort_consistent compareTasks_consistent)
  then show ?thesis
    unfolding eq by (simp add: mset_js_sort)
qed

text \<open>
  The example store under the smart sort: the task of priority High stands before the
  task of priority Medium, as they do in the collection.
\<close>

theorem search_without_query_shows_all_witness:
  "filteredTasks example_env example_store [] ''search'' [] Sort_smart
      = [plain_task, example_task]
    \<and> sorted_wrt (\<lambda>a b. compareTasks (localeCompare example_env) Sort_smart a b \<le> 0)
        [plain_task, example_task]"
proof -
  have c: "compareTasks (localeCompare example_env) Sort_smart plain_task example_task \<le> 0"
    by (simp add: compareTasks_def example_task_def plain_task_def prioOrder_def)
  have j: "js_sort (compareTasks (localeCompare example_env) Sort_smart) (tasks example_store)
      = [plain_task, example_task]"
    using c by (simp add: example_store_def js_sort_def)
  have h: "Sort_smart = Sort_alphabetical \<longrightarrow> consistent (localeCompare example_env)"
    by simp
  from search_without_query_shows_all [of example_env example_store "[]" Sort_smart] h
  have "filteredTasks example_env example_store [] ''search'' [] Sort_smart
        = js_sort (compareTasks (localeCompare example_env) Sort_smart) (tasks example_store)"
    and "sorted_wrt (\<lambda>a b. compareTasks (localeCompare example_env) Sort_smart a b \<le> 0)
        (filteredTasks example_env example_store [] ''search'' [] Sort_smart)"
    by blast+
  then show ?thesis
    unfolding j by simp
qed

text \<open>
  The claim as it is stated fails on every collection that is not empty: with the two
  tasks of the example store the display list of the search view has two tasks.
\<close>

theorem search_without_query_not_empty:
  "length (filteredTasks example_env example_store [] ''search'' [] Sort_smart) = 2"
proof -
  have "size (mset (filteredTasks example_env example_store [] ''search'' [] Sort_smart))
      = size (mset (tasks example_store))"
    by (simp add: filteredTasks_def viewFilter_def mset_js_sort)
  then show ?thesis
    by (simp add: example_store_def)
qed

section \<open>The sorted display list\<close>

lemma smart_le:
  "compareTasks lc Sort_smart a b \<le> 0 \<longleftrightarrow>
     (if completed a \<noteq> completed b then completed b
      else prioOrder (priority b) < prioOrder (priority a)
        \<or> (prioOrder (priority b) = prioOrder (priority a) \<and> dueDate_le a b))"
  by (auto simp add: compareTasks_def dueDateCompare_le)

lemma smart_total: "compareTasks lc Sort_smart a b \<le> 0 \<or> compareTasks lc Sort_smart b a \<le> 0"
  unfolding smart_le using dueDate_le_total [of a b] by auto

lemma smart_trans:
  assumes "compareTasks lc Sort_smart a b \<le> 0" and "compareTasks lc Sort_smart b c \<le> 0"
  shows "compareTasks lc Sort_smart a c \<le> 0"
proof -
  define pa where "pa = prioOrder (priority a)"
  define pb where "pb = prioOrder (priority b)"
  define pc where "pc = prioOrder (priority c)"
  have t: "dueDate_le a b \<Longrightarrow> dueDate_le b c \<Longrightarrow> dueDate_le a c"
    by (rule dueDate_le_trans)
  show ?thesis
    using assms t unfolding smart_le pa_def [symmetric] pb_def [symmetric] pc_def [symmetric]
    by (cases "completed a"; cases "completed b"; cases "completed c") (auto split: if_splits)
qed

lemma prioOrder_inj: "prioOrder p = prioOrder q \<longleftrightarrow> p = q"
  by (cases p; cases q) (simp_all add: prioOrder_def)

text \<open>
  C6. Let \<open>a\<close> stand before \<open>b\<close> in the display list of any view under the smart sort. Then
  \<^item> \<open>a\<close> is not a completed task before an incomplete one;
  \<^item> if both have the same completion status, the priority of \<open>a\<close> (High 3, Medium 2,
    Low 1, None 0) is at least that of \<open>b\<close>, whatever their due dates;
  \<^item> if moreover both have the same priority, then \<open>b\<close> has no due date when \<open>a\<close> has none,
    and the due date of \<open>a\<close> is not after that of \<open>b\<close> when both have one.
\<close>

theorem smart_sort_order:
  assumes "ys = filteredTasks e s labels activeView searchQuery Sort_smart"
    and "i < j" and "j < length ys"
  shows "(completed (ys ! i) \<longrightarrow> completed (ys ! j))
    \<and> (completed (ys ! i) = completed (ys ! j)
         \<longrightarrow> prioOrder (priority (ys ! j)) \<le> prioOrder (priority (ys ! i)))
    \<and> (completed (ys ! i) = completed (ys ! j) \<and> priority (ys ! i) = priority (ys ! j)
         \<longrightarrow> (dueDate (ys ! i) = None \<longrightarrow> dueDate (ys ! j) = None)
           \<and> (\<forall>x y. dueDate (ys ! i) = Some x \<and> dueDate (ys ! j) = Some y \<longrightarrow> x \<le> y))"
proof -
  define lc where "lc = localeCompare e"
  have "sorted_wrt (\<lambda>a b. compareTasks lc Sort_smart a b \<le> 0) ys"
  proof (cases "activeView = ''activity''")
    case True
    then show ?thesis
      by (simp add: assms(1) filteredTasks_def)
  next
    case False
    then have "ys = js_sort (compareTasks lc Sort_smart)
        (viewFilter e s labels activeView searchQuery)"
      by (simp add: assms(1) filteredTasks_def lc_def)
    then show ?thesis
      using sorted_js_sort [of "compareTasks lc Sort_smart", OF smart_total smart_trans]
      by simp
  qed
  then have "compareTasks lc Sort_smart (ys ! i) (ys ! j) \<le> 0"
    using assms(2,3) by (simp add: sorted_wrt_iff_nth_less)
  then show ?thesis
    unfolding smart_le
    by (auto simp add: prioOrder_inj dueDate_le_def split: if_splits option.splits)
qed

text \<open>
  A Medium task due on 2024-01-01 stored before a High task without a due date: in the
  view of all tasks the High task comes first.
\<close>

definition unsorted_store :: store where
  "unsorted_store = \<lparr>tasks = [example_task, plain_task], arrays = (\<lambda>a. [])\<rparr>"

theorem smart_sort_order_witness:
  "filteredTasks example_env unsorted_store [] ''all'' [] Sort_smart
      = [plain_task, example_task]
    \<and> prioOrder (priority example_task) \<le> prioOrder (priority plain_task)
    \<and> dueDate plain_task = None"
proof -
  define ys where "ys = filteredTasks example_env unsorted_store [] ''all'' [] Sort_smart"
  have c: "compareTasks (localeCompare example_env) Sort_smart example_task plain_task > 0"
    by (simp add: compareTasks_def example_task_def plain_task_def prioOrder_def)
  have ys: "ys = [plain_task, example_task]"
    using c by (simp add: ys_def filteredTasks_def viewFilter_def unsorted_store_def js_sort_def)
  have h: "(0::nat) < 1" "1 < length ys"
    by (simp_all add: ys)
  from smart_sort_order [OF ys_def h]
  have "prioOrder (priority (ys ! 1)) \<le> prioOrder (priority (ys ! 0))"
    by (simp add: ys example_task_def plain_task_def)
  then show ?thesis
    unfolding ys_def [symmetric] by (simp add: ys plain_task_def)
qed

section \<open>Reminders that are due\<close>

text \<open>The reminders of a task that are not fired yet and due at the time \<open>n\<close>.\<close>

definition due :: "int \<Rightarrow> Reminder \<Rightarrow> bool" where
  "due n r \<longleftrightarrow> \<not> rm_fired r \<and> rm_time r \<le> n"

lemma checkTask_unchanged:
  "\<not> fst (snd (checkTask granted n task)) \<Longrightarrow> fst (checkTask granted n task) = task"
  unfolding checkTask_def Let_def by (auto split: if_splits)

lemma checkTask_task:
  "fst (checkTask granted n task) =
     (if completed task then task
      else task\<lparr>reminders :=
        map (\<lambda>r. if list_ex (\<lambda>rt. rm_id rt = rm_id r) (filter (due n) (reminders task))
                  then r\<lparr>rm_fired := True\<rparr> else r)
            (reminders task)\<rparr>)"
proof -
  have d: "(\<lambda>r. \<not> rm_fired r \<and> rm_time r \<le> n) = due n"
    by (simp add: due_def fun_eq_iff)
  show ?thesis
  proof (cases "completed task \<or> reminders task = []")
    case True
    then show ?thesis
      by (auto simp add: checkTask_def)
  next
    case False
    show ?thesis
    proof (cases "filter (due n) (reminders task) = []")
      case True
      then have "task\<lparr>reminders :=
          map (\<lambda>r. if list_ex (\<lambda>rt. rm_id rt = rm_id r) (filter (due n) (reminders task))
                    then r\<lparr>rm_fired := True\<rparr> else r)
              (reminders task)\<rparr> = task"
        by simp
      with True False show ?thesis
        by (simp add: checkTask_def d)
    next
      case nonempty: False
      with False show ?thesis
        by (simp add: checkTask_def d Let_def)
    qed
  qed
qed

lemma reminderCheck_tasks:
  "fst (reminderCheck granted n ts) = map (\<lambda>task. fst (checkTask granted n task)) ts"
proof (cases "list_ex (\<lambda>r. fst (snd r)) (map (checkTask granted n) ts)")
  case True
  then show ?thesis
    by (simp add: reminderCheck_def Let_def comp_def)
next
  case False
  then have "\<forall>task \<in> set ts. \<not> fst (snd (checkTask granted n task))"
    by (simp add: list_ex_iff)
  then have "map (\<lambda>task. fst (checkTask granted n task)) ts = ts"
    by (simp add: checkTask_unchanged map_idI)
  with False show ?thesis
    by (simp add: reminderCheck_def Let_def)
qed

lemma fires_iff_due:
  assumes "distinct (map rm_id rs)" and "r \<in> set rs"
  shows "list_ex (\<lambda>rt. rm_id rt = rm_id r) (filter (due n) rs) \<longleftrightarrow> due n r"
proof
  assume "list_ex (\<lambda>rt. rm_id rt = rm_id r) (filter (due n) rs)"
  then obtain rt where rt: "rt \<in> set rs" "due n rt" "rm_id rt = rm_id r"
    by (auto simp add: list_ex_iff)
  have "inj_on rm_id (set rs)"
    using assms(1) by (simp add: distinct_map)
  with rt(1,3) assms(2) have "rt = r"
    by (auto dest: inj_onD)
  with rt(2) show "due n r"
    by simp
next
  assume "due n r"
  with assms(2) show "list_ex (\<lambda>rt. rm_id rt = rm_id r) (filter (due n) rs)"
    by (auto simp add: list_ex_iff)
qed

text \<open>
  C7 (as amended). One run of the check at the time \<open>n\<close>, for the task at index \<open>k\<close>.
  The collection keeps its length, and the task its number of reminders. A completed task
  is returned as it is. A reminder that was fired is as it was, so no reminder goes from
  fired to not fired. In an incomplete task every reminder that was not fired and has a
  time of at most \<open>n\<close> is fired. If moreover the reminders of the incomplete task have
  pairwise distinct ids, these are the only reminders that change: every reminder with a
  later time is as it was, and nothing else of the task changes.
\<close>

theorem reminder_check_fires_due:
  assumes "k < length ts"
  shows "length (fst (reminderCheck granted n ts)) = length ts
    \<and> length (reminders (fst (reminderCheck granted n ts) ! k)) = length (reminders (ts ! k))
    \<and> (completed (ts ! k) \<longrightarrow> fst (reminderCheck granted n ts) ! k = ts ! k)
    \<and> (\<forall>j < length (reminders (ts ! k)).
         rm_fired (reminders (ts ! k) ! j)
           \<longrightarrow> reminders (fst (reminderCheck granted n ts) ! k) ! j = reminders (ts ! k) ! j
             \<and> rm_fired (reminders (fst (reminderCheck granted n ts) ! k) ! j))
    \<and> (\<not> completed (ts ! k) \<longrightarrow>
         (\<forall>j < length (reminders (ts ! k)).
            \<not> rm_fired (reminders (ts ! k) ! j) \<and> rm_time (reminders (ts ! k) ! j) \<le> n
              \<longrightarrow> reminders (fst (reminderCheck granted n ts) ! k) ! j
                    = (reminders (ts ! k) ! j)\<lparr>rm_fired := True\<rparr>))
    \<and> (\<not> completed (ts ! k) \<and> distinct (map rm_id (reminders (ts ! k))) \<longrightarrow>
         fst (reminderCheck granted n ts) ! k =
           (ts ! k)\<lparr>reminders :=
             map (\<lambda>r. if \<not> rm_fired r \<and> rm_time r \<le> n then r\<lparr>rm_fired := True\<rparr> else r)
                 (reminders (ts ! k))\<rparr>)"
proof -
  define rs where "rs = reminders (ts ! k)"
  define fire :: "Reminder \<Rightarrow> Reminder" where "fire = (\<lambda>r. if list_ex (\<lambda>rt. rm_id rt = rm_id r)
      (filter (due n) rs) then r\<lparr>rm_fired := True\<rparr> else r)"
  have r: "fst (reminderCheck granted n ts) ! k =
      (if completed (ts ! k) then ts ! k else (ts ! k)\<lparr>reminders := map fire rs\<rparr>)"
    using assms by (simp add: reminderCheck_tasks checkTask_task fire_def rs_def)
  have len: "length (fst (reminderCheck granted n ts)) = length ts"
    by (simp add: reminderCheck_tasks)
  have count: "length (reminders (fst (reminderCheck granted n ts) ! k)) = length rs"
    by (simp add: r rs_def)
  have same: "completed (ts ! k) \<Longrightarrow> fst (reminderCheck granted n ts) ! k = ts ! k"
    by (simp add: r)
  have fired: "fire x = x" if "rm_fired x" for x
    using that by (cases x) (simp add: fire_def)
  have kept: "reminders (fst (reminderCheck granted n ts) ! k) ! j = rs ! j
      \<and> rm_fired (reminders (fst (reminderCheck granted n ts) ! k) ! j)"
    if a: "j < length rs" "rm_fired (rs ! j)" for j
    using a fired [of "rs ! j"] by (simp add: r rs_def [symmetric])
  have fires: "reminders (fst (reminderCheck granted n ts) ! k) ! j = (rs ! j)\<lparr>rm_fired := True\<rparr>"
    if a: "\<not> completed (ts ! k)" "j < length rs" "\<not> rm_fired (rs ! j)" "rm_time (rs ! j) \<le> n"
    for j
  proof -
    have "rs ! j \<in> set (filter (due n) rs)"
      using a(2,3,4) by (simp add: due_def)
    then have "list_ex (\<lambda>rt. rm_id rt = rm_id (rs ! j)) (filter (due n) rs)"
      unfolding list_ex_iff by blast
    then have "fire (rs ! j) = (rs ! j)\<lparr>rm_fired := True\<rparr>"
      by (simp add: fire_def)
    with a(1,2) show ?thesis
      by (simp add: r)
  qed
  have exact: "fst (reminderCheck granted n ts) ! k =
      (ts ! k)\<lparr>reminders :=
        map (\<lambda>r. if \<not> rm_fired r \<and> rm_time r \<le> n then r\<lparr>rm_fired := True\<rparr> else r) rs\<rparr>"
    if a: "\<not> completed (ts ! k)" "distinct (map rm_id rs)"
  proof -
    have "map fire rs
        = map (\<lambda>r. if \<not> rm_fired r \<and> rm_time r \<le> n then r\<lparr>rm_fired := True\<rparr> else r) rs"
      using a(2) by (intro map_cong refl) (simp add: fire_def fires_iff_due due_def)
    with a(1) show ?thesis
      by (simp add: r)
  qed
  from len count same kept fires exact show ?thesis
    unfolding rs_def by blast
qed

text \<open>
  A task with three reminders: one fired before, one due and one later. At
  2024-01-01 the due one is fired and the other two stay as they are.
\<close>

definition reminded_task :: Task where
  "reminded_task = plain_task
     \<lparr>reminders :=
        [\<lparr>rm_id = ''r1'', rm_time = Date_UTC 2023 11 30, rm_fired = True\<rparr>,
         \<lparr>rm_id = ''r2'', rm_time = Date_UTC 2023 11 31, rm_fired = False\<rparr>,
         \<lparr>rm_id = ''r3'', rm_time = Date_UTC 2024 0 2, rm_fired = False\<rparr>]\<rparr>"

theorem reminder_check_fires_due_witness:
  "map rm_fired (reminders (fst (reminderCheck True (Date_UTC 2024 0 1) [reminded_task]) ! 0))
     = [True, True, False]
   \<and> map rm_id (reminders (fst (reminderCheck True (Date_UTC 2024 0 1) [reminded_task]) ! 0))
     = [''r1'', ''r2'', ''r3'']"
proof -
  have h1: "0 < length [reminded_task]"
    by simp
  have h2: "\<not> completed ([reminded_task] ! 0)
      \<and> distinct (map rm_id (reminders ([reminded_task] ! 0)))"
    by (simp add: reminded_task_def plain_task_def example_task_def)
  from reminder_check_fires_due [OF h1, of True "Date_UTC 2024 0 1"] h2
  have "fst (reminderCheck True (Date_UTC 2024 0 1) [reminded_task]) ! 0 =
      ([reminded_task] ! 0)\<lparr>reminders :=
        map (\<lambda>r. if \<not> rm_fired r \<and> rm_time r \<le> Date_UTC 2024 0 1 then r\<lparr>rm_fired := True\<rparr> else r)
            (reminders ([reminded_task] ! 0))\<rparr>"
    by blast
  then show ?thesis
    by (simp add: reminded_task_def Date_UTC_examples Date_UTC_2024_0_1)
qed

text \<open>
  The claim as it is stated fails on a task with two reminders of one id: the code tells
  the reminders to fire apart by their ids. Of the two reminders \<open>r1\<close> of this task, both
  not fired, one is due on 2023-12-31 and the other on 2024-01-02. The check at 2024-01-01
  fires both, the one with the later time too.
\<close>

definition twin_task :: Task where
  "twin_task = plain_task
     \<lparr>reminders :=
        [\<lparr>rm_id = ''r1'', rm_time = Date_UTC 2023 11 31, rm_fired = False\<rparr>,
         \<lparr>rm_id = ''r1'', rm_time = Date_UTC 2024 0 2, rm_fired = False\<rparr>]\<rparr>"

theorem reminder_check_fires_later_twin:
  "\<not> completed twin_task
    \<and> map rm_fired (reminders twin_task) = [False, False]
    \<and> rm_time (reminders twin_task ! 1) = Date_UTC 2024 0 2
    \<and> Date_UTC 2024 0 1 < Date_UTC 2024 0 2
    \<and> map rm_fired (reminders (fst (reminderCheck True (Date_UTC 2024 0 1) [twin_task]) ! 0))
        = [True, True]"
  by (simp add: reminderCheck_def checkTask_def Let_def twin_task_def plain_task_def
      example_task_def Date_UTC_examples Date_UTC_2024_0_1)

section \<open>Completing and reopening a task without recurrence\<close>

text \<open>
  C8. Let the task found under the id \<open>i\<close> (the first of the collection with that id, at
  index \<open>k\<close>) have no recurrence. Then two runs of \<open>handleToggleTask\<close> with \<open>i\<close> both
  succeed, and afterwards the collection has as many tasks as before, the task at \<open>k\<close> has
  its former \<open>completed\<close> flag and exactly two more log entries, and every other task is as
  it was.
\<close>

theorem toggle_twice_non_recurring:
  assumes "k < length prev" and "task_id (prev ! k) = i"
    and "\<forall>j < k. task_id (prev ! j) \<noteq> i"
    and "recurrence (prev ! k) = Recurrence_None"
  shows "\<exists>s1 s2. handleToggleTask e1 i prev = Inr s1 \<and> handleToggleTask e2 i s1 = Inr s2
    \<and> length s2 = length prev
    \<and> task_id (s2 ! k) = i
    \<and> completed (s2 ! k) = completed (prev ! k)
    \<and> length (logs (s2 ! k)) = length (logs (prev ! k)) + 2
    \<and> (\<forall>j < length prev. j \<noteq> k \<longrightarrow> s2 ! j = prev ! j)"
proof -
  define t1 where "t1 = (prev ! k)
      \<lparr>completed := \<not> completed (prev ! k),
       logs := logs (prev ! k) @
         [\<lparr>log_id = randomUUID e1 0, log_timestamp = now e1 0,
           log_message =
             (if \<not> completed (prev ! k) then ''Completed task'' else ''Uncompleted task'')\<rparr>]\<rparr>"
  define s1 where "s1 = prev[k := t1]"
  define t2 where "t2 = t1
      \<lparr>completed := \<not> completed t1,
       logs := logs t1 @
         [\<lparr>log_id = randomUUID e2 0, log_timestamp = now e2 0,
           log_message =
             (if \<not> completed t1 then ''Completed task'' else ''Uncompleted task'')\<rparr>]\<rparr>"
  define s2 where "s2 = s1[k := t2]"
  have f0: "findIndex (\<lambda>t. task_id t = i) prev = Some k"
    using assms(1,2,3) by (intro findIndex_first) simp_all
  have r1: "handleToggleTask e1 i prev = Inr s1"
    unfolding s1_def t1_def by (rule toggle_non_recurring [OF f0 assms(4)])
  have id1: "task_id t1 = i"
    using assms(2) by (simp add: t1_def)
  have f1: "findIndex (\<lambda>t. task_id t = i) s1 = Some k"
    unfolding s1_def using f0 id1 by (rule findIndex_update)
  have n1: "s1 ! k = t1"
    using assms(1) by (simp add: s1_def)
  have rec1: "recurrence (s1 ! k) = Recurrence_None"
    using assms(4) by (simp add: n1 t1_def)
  have r2: "handleToggleTask e2 i s1 = Inr s2"
    using toggle_non_recurring [OF f1 rec1, of e2] by (simp add: s2_def t2_def n1)
  have n2: "s2 ! k = t2"
    using assms(1) by (simp add: s2_def s1_def)
  have "length s2 = length prev"
    by (simp add: s2_def s1_def)
  moreover have "task_id (s2 ! k) = i"
    using id1 by (simp add: n2 t2_def)
  moreover have "completed (s2 ! k) = completed (prev ! k)"
    by (simp add: n2 t2_def t1_def)
  moreover have "length (logs (s2 ! k)) = length (logs (prev ! k)) + 2"
    by (simp add: n2 t2_def t1_def)
  moreover have "\<forall>j < length prev. j \<noteq> k \<longrightarrow> s2 ! j = prev ! j"
    by (simp add: s2_def s1_def)
  ultimately show ?thesis
    using r1 r2 by blast
qed

theorem toggle_twice_non_recurring_witness:
  "\<exists>s1 s2. handleToggleTask example_env ''t2'' (tasks example_store) = Inr s1
    \<and> handleToggleTask example_env ''t2'' s1 = Inr s2
    \<and> length s2 = length (tasks example_store)
    \<and> task_id (s2 ! 0) = ''t2''
    \<and> completed (s2 ! 0) = completed (tasks example_store ! 0)
    \<and> length (logs (s2 ! 0)) = length (logs (tasks example_store ! 0)) + 2
    \<and> s2 ! 1 = tasks example_store ! 1"
proof -
  have "\<exists>s1 s2. handleToggleTask example_env ''t2'' (tasks example_store) = Inr s1
    \<and> handleToggleTask example_env ''t2'' s1 = Inr s2
    \<and> length s2 = length (tasks example_store)
    \<and> task_id (s2 ! 0) = ''t2''
    \<and> completed (s2 ! 0) = completed (tasks example_store ! 0)
    \<and> length (logs (s2 ! 0)) = length (logs (tasks example_store ! 0)) + 2
    \<and> (\<forall>j < length (tasks example_store). j \<noteq> 0 \<longrightarrow> s2 ! j = tasks example_store ! j)"
    by (rule toggle_twice_non_recurring)
      (simp_all add: example_store_def plain_task_def example_task_def)
  moreover have "(1::nat) < length (tasks example_store)"
    by (simp add: example_store_def)
  ultimately show ?thesis
    by fastforce
qed

section \<open>Mutations with an id that is not in the collection\<close>

text \<open>
  C9. If no task of the collection has the id, \<open>handleToggleTask\<close>, \<open>handleUpdateTask\<close>
  (with a snapshot of that id) and \<open>handleDeleteTask\<close> return the collection as it was:
  no error, the same tasks in the same order, and the same label arrays.
\<close>

theorem missing_id_is_no_op:
  assumes "\<forall>t \<in> set (tasks s). task_id t \<noteq> i" and "task_id u = i"
  shows "handleToggleTask e i (tasks s) = Inr (tasks s)
    \<and> handleUpdateTask es taskLists labels u s = s
    \<and> handleDeleteTask i (tasks s) = tasks s"
proof -
  have "findIndex (\<lambda>t. task_id t = i) (tasks s) = None"
    using assms(1) by (simp add: findIndex_None)
  then have 1: "handleToggleTask e i (tasks s) = Inr (tasks s)"
    by (simp add: handleToggleTask_def)
  have "updateTasks es taskLists labels u 0 (arrays s) (tasks s) = (tasks s, arrays s)"
    using assms by (intro updateTasks_absent) simp
  then have 2: "handleUpdateTask es taskLists labels u s = s"
    by (simp add: handleUpdateTask_def)
  have 3: "handleDeleteTask i (tasks s) = tasks s"
    using assms(1) by (simp add: handleDeleteTask_def filter_absent)
  from 1 2 3 show ?thesis
    by simp
qed

theorem missing_id_is_no_op_witness:
  "handleToggleTask example_env ''t9'' (tasks example_store) = Inr (tasks example_store)
    \<and> handleUpdateTask (\<lambda>k. example_env) [] [] (example_task\<lparr>task_id := ''t9''\<rparr>) example_store
        = example_store
    \<and> handleDeleteTask ''t9'' (tasks example_store) = tasks example_store"
  using missing_id_is_no_op [of example_store "''t9''" "example_task\<lparr>task_id := ''t9''\<rparr>"
      example_env "\<lambda>k. example_env" "[]" "[]"]
  by (simp add: example_store_def example_task_def plain_task_def)

section \<open>What an update keeps\<close>

text \<open>
  Where the tasks and the label arrays stand after an update: the new task is the
  snapshot with other logs, the collection keeps its length, a task with another id is
  returned as it is, and the label arrays of the stored tasks with the id and of the
  snapshot are sorted where they lie.
\<close>

lemma handleUpdateTask_frame:
  assumes "k < length (tasks s)"
  shows "length (tasks (handleUpdateTask es taskLists labels u s)) = length (tasks s)
    \<and> (task_id (tasks s ! k) = task_id u \<longrightarrow>
         tasks (handleUpdateTask es taskLists labels u s) ! k
           = u\<lparr>logs := logs (tasks (handleUpdateTask es taskLists labels u s) ! k)\<rparr>)
    \<and> (task_id (tasks s ! k) \<noteq> task_id u \<longrightarrow>
         tasks (handleUpdateTask es taskLists labels u s) ! k = tasks s ! k)
    \<and> arrays (handleUpdateTask es taskLists labels u s)
         = (\<lambda>a. if a \<in> touched u (tasks s) then sort (arrays s a) else arrays s a)"
  using assms
  by (simp add: handleUpdateTask_nth handleUpdateTask_length mergedTask_def)
    (simp add: handleUpdateTask_eq)

text \<open>
  Let \<open>s'\<close> be the store after \<open>handleUpdateTask\<close> with the snapshot \<open>u\<close>,
  and look at the task at index \<open>k\<close>. The collection keeps its length: nothing is spawned.
  \<^item> If the stored task at \<open>k\<close> has the id of \<open>u\<close>, the task at \<open>k\<close> is now \<open>u\<close> with other
    logs: every other field is that of the snapshot, among them \<open>completed\<close>, \<open>recurrence\<close>
    and \<open>reminders\<close>, and the reference to the label array. That array is now sorted, so
    the label ids are those of the snapshot, possibly in another order.
  \<^item> If the stored task at \<open>k\<close> has another id, it is returned as it is. Its label ids are
    the same as before; they are in the same order too, unless its label array is the
    array of the snapshot or of a stored task with the id of the snapshot, in which case
    it has been sorted with theirs.
\<close>

lemma update_keeps_snapshot_and_others:
  assumes "s' = handleUpdateTask es taskLists labels u s" and "k < length (tasks s)"
  shows "length (tasks s') = length (tasks s)
    \<and> (task_id (tasks s ! k) = task_id u \<longrightarrow>
         tasks s' ! k = u\<lparr>logs := logs (tasks s' ! k)\<rparr>
         \<and> completed (tasks s' ! k) = completed u
         \<and> recurrence (tasks s' ! k) = recurrence u
         \<and> reminders (tasks s' ! k) = reminders u
         \<and> arrays s' (labelIds (tasks s' ! k)) = sort (arrays s (labelIds u)))
    \<and> (task_id (tasks s ! k) \<noteq> task_id u \<longrightarrow>
         tasks s' ! k = tasks s ! k
         \<and> mset (arrays s' (labelIds (tasks s ! k))) = mset (arrays s (labelIds (tasks s ! k)))
         \<and> (labelIds (tasks s ! k) \<noteq> labelIds u
              \<and> (\<forall>t \<in> set (tasks s). task_id t = task_id u \<longrightarrow> labelIds t \<noteq> labelIds (tasks s ! k))
            \<longrightarrow> arrays s' (labelIds (tasks s ! k)) = arrays s (labelIds (tasks s ! k))))"
proof -
  note f = handleUpdateTask_frame [OF assms(2), of es taskLists labels u, folded assms(1)]
  have len: "length (tasks s') = length (tasks s)"
    using f by simp
  have arr: "arrays s' a = (if a \<in> touched u (tasks s) then sort (arrays s a) else arrays s a)" for a
    using f by simp
  have same: "task_id (tasks s ! k) = task_id u \<Longrightarrow>
      tasks s' ! k = u\<lparr>logs := logs (tasks s' ! k)\<rparr>
      \<and> completed (tasks s' ! k) = completed u
      \<and> recurrence (tasks s' ! k) = recurrence u
      \<and> reminders (tasks s' ! k) = reminders u
      \<and> arrays s' (labelIds (tasks s' ! k)) = sort (arrays s (labelIds u))"
  proof -
    assume a: "task_id (tasks s ! k) = task_id u"
    with f have e: "tasks s' ! k = u\<lparr>logs := logs (tasks s' ! k)\<rparr>"
      by simp
    have "tasks s ! k \<in> set (tasks s)"
      using assms(2) by simp
    with a have "labelIds u \<in> touched u (tasks s)"
      by (auto simp add: touched_def)
    then have "arrays s' (labelIds u) = sort (arrays s (labelIds u))"
      by (simp add: arr)
    moreover have "completed (tasks s' ! k) = completed u" "recurrence (tasks s' ! k) = recurrence u"
      "reminders (tasks s' ! k) = reminders u" "labelIds (tasks s' ! k) = labelIds u"
      by (subst e, simp)+
    ultimately show ?thesis
      using e by simp
  qed
  have other: "task_id (tasks s ! k) \<noteq> task_id u \<Longrightarrow>
      tasks s' ! k = tasks s ! k
      \<and> mset (arrays s' (labelIds (tasks s ! k))) = mset (arrays s (labelIds (tasks s ! k)))
      \<and> (labelIds (tasks s ! k) \<noteq> labelIds u
           \<and> (\<forall>t \<in> set (tasks s). task_id t = task_id u \<longrightarrow> labelIds t \<noteq> labelIds (tasks s ! k))
         \<longrightarrow> arrays s' (labelIds (tasks s ! k)) = arrays s (labelIds (tasks s ! k)))"
  proof -
    assume a: "task_id (tasks s ! k) \<noteq> task_id u"
    with f have "tasks s' ! k = tasks s ! k"
      by simp
    moreover have "mset (arrays s' (labelIds (tasks s ! k))) = mset (arrays s (labelIds (tasks s ! k)))"
      by (simp add: arr)
    moreover have "labelIds (tasks s ! k) \<noteq> labelIds u
        \<and> (\<forall>t \<in> set (tasks s). task_id t = task_id u \<longrightarrow> labelIds t \<noteq> labelIds (tasks s ! k))
      \<longrightarrow> arrays s' (labelIds (tasks s ! k)) = arrays s (labelIds (tasks s ! k))"
      by (auto simp add: arr touched_def)
    ultimately show ?thesis
      by simp
  qed
  from len same other show ?thesis
    by blast
qed

text \<open>
  The snapshot marks the weekly task of the example store completed. The collection still
  has two tasks, the weekly task is completed and still weekly, its labels are sorted,
  and the other task is as it was.
\<close>

definition completed_snapshot :: Task where
  "completed_snapshot = example_task\<lparr>completed := True\<rparr>"

lemma update_completed_example:
  "length (tasks (handleUpdateTask (\<lambda>k. example_env) [] [] completed_snapshot example_store)) = 2
    \<and> completed (tasks (handleUpdateTask (\<lambda>k. example_env) [] [] completed_snapshot example_store) ! 1)
    \<and> recurrence (tasks (handleUpdateTask (\<lambda>k. example_env) [] [] completed_snapshot example_store) ! 1)
        = Weekly
    \<and> arrays (handleUpdateTask (\<lambda>k. example_env) [] [] completed_snapshot example_store) 0
        = [''design'', ''urgent'']
    \<and> tasks (handleUpdateTask (\<lambda>k. example_env) [] [] completed_snapshot example_store) ! 0
        = plain_task"
proof -
  define s' where "s' = handleUpdateTask (\<lambda>k. example_env) [] [] completed_snapshot example_store"
  have n: "0 < length (tasks example_store)" "1 < length (tasks example_store)"
    by (simp_all add: example_store_def)
  have t: "tasks example_store ! 0 = plain_task" "tasks example_store ! 1 = example_task"
    by (simp_all add: example_store_def)
  have i0: "task_id (tasks example_store ! 0) \<noteq> task_id completed_snapshot"
    unfolding t by (simp add: plain_task_def example_task_def completed_snapshot_def)
  have i1: "task_id (tasks example_store ! 1) = task_id completed_snapshot"
    unfolding t by (simp add: example_task_def completed_snapshot_def)
  have s: "sort [''urgent'', ''design''] = [''design'', ''urgent'']"
    by simp
  from update_keeps_snapshot_and_others [OF s'_def n(1)] i0
  have 0: "length (tasks s') = length (tasks example_store)" "tasks s' ! 0 = plain_task"
    by (simp_all add: t)
  from update_keeps_snapshot_and_others [OF s'_def n(2)] i1
  have 1: "tasks s' ! 1 = completed_snapshot\<lparr>logs := logs (tasks s' ! 1)\<rparr>"
    "completed (tasks s' ! 1) = completed completed_snapshot"
    "recurrence (tasks s' ! 1) = recurrence completed_snapshot"
    "arrays s' (labelIds (tasks s' ! 1)) = sort (arrays example_store (labelIds completed_snapshot))"
    by simp_all
  have "labelIds (tasks s' ! 1) = 0"
    by (subst 1(1)) (simp add: completed_snapshot_def example_task_def)
  with 1(4) have "arrays s' 0 = [''design'', ''urgent'']"
    by (simp add: completed_snapshot_def example_task_def example_store_def s)
  with 0 1(2,3) show ?thesis
    unfolding s'_def [symmetric]
    by (simp add: completed_snapshot_def example_task_def example_store_def)
qed

text \<open>
  On a store in which every label array is sorted, which is how an update leaves the
  arrays it touches, an update changes no label array.
\<close>

lemma update_on_sorted_store:
  assumes "\<forall>a. sorted (arrays s a)"
  shows "arrays (handleUpdateTask es taskLists labels u s) = arrays s"
  using assms by (simp add: handleUpdateTask_eq fun_eq_iff sorted_sort_id)

text \<open>
  The example store after the weekly task has been completed: its next occurrence stands
  in front, and the label arrays are the same as before.
\<close>

definition recurring_store :: store where
  "recurring_store =
     \<lparr>tasks = (case handleToggleTask example_env ''t1'' (tasks example_store) of
                 Inr ts \<Rightarrow> ts | Inl err \<Rightarrow> []),
      arrays = arrays example_store\<rparr>"

text \<open>
  C10. The weekly task of the example store has the label array \<open>[urgent, design]\<close>, as a
  collection read from the persisted state may have it. Completing the task puts its next
  occurrence in front, and the two tasks hold one array, since \<open>{...task}\<close> copies the
  reference. An update with a snapshot of the next occurrence under a new title sorts that
  array where it lies (\<open>oldLabels.sort()\<close>, App.tsx 330). The completed task has another
  id, and the callback returns it as it is; the claim says that it is unchanged, but its
  labels now read \<open>[design, urgent]\<close>.
\<close>

theorem update_sorts_shared_label_array:
  "length (tasks recurring_store) = 3
    \<and> task_id (tasks recurring_store ! 0) = ''uu''
    \<and> task_id (tasks recurring_store ! 2) = ''t1''
    \<and> arrays recurring_store (labelIds (tasks recurring_store ! 2)) = [''urgent'', ''design'']
    \<and> tasks (handleUpdateTask (\<lambda>k. example_env) [] []
          ((tasks recurring_store ! 0)\<lparr>title := ''Water the ferns''\<rparr>) recurring_store) ! 2
        = tasks recurring_store ! 2
    \<and> arrays (handleUpdateTask (\<lambda>k. example_env) [] []
          ((tasks recurring_store ! 0)\<lparr>title := ''Water the ferns''\<rparr>) recurring_store)
          (labelIds (tasks recurring_store ! 2))
        = [''design'', ''urgent'']"
proof -
  have c: "calculateNextDueDate new_york_2024 (Some (Date_UTC 2024 0 1)) Weekly None
      = Some (Some (Date_UTC 2024 0 8))"
    by (rule weekly_from_2024_01_01)
  have ts: "tasks recurring_store =
      [example_task
         \<lparr>task_id := ''uu'', completed := False, dueDate := Some (Date_UTC 2024 0 8),
          reminders := [], attachments := [],
          logs := [\<lparr>log_id = ''uuu'', log_timestamp = 1717200000002,
                   log_message = ''Recurring task created from '' @ [CHR 0x27]
                     @ ''Water the plants'' @ [CHR 0x27]\<rparr>],
          createdAt := 1717200000003\<rparr>,
       plain_task,
       example_task
         \<lparr>completed := True,
          logs := [example_log,
                  \<lparr>log_id = ''u'', log_timestamp = 1717200000000,
                   log_message = ''Completed task''\<rparr>]\<rparr>]"
    by (simp add: recurring_store_def handleToggleTask_def example_store_def plain_task_def
        example_task_def example_env_def Let_def c toISOString_def eval_nat_numeral)
  have a: "arrays recurring_store = (\<lambda>a. if a = 0 then [''urgent'', ''design''] else [])"
    by (simp add: recurring_store_def example_store_def)
  have s: "sort [''urgent'', ''design''] = [''design'', ''urgent'']"
    by simp
  have n: "(2::nat) < length (tasks recurring_store)"
    by (simp add: ts)
  show ?thesis
    using handleUpdateTask_frame [OF n, of "\<lambda>k. example_env" "[]" "[]"
        "(tasks recurring_store ! 0)\<lparr>title := ''Water the ferns''\<rparr>"]
    by (simp add: ts a s touched_def example_task_def plain_task_def)
qed

end
